(* ===== verification/Prelude.thy ===== *)
theory Prelude
  imports Main
begin

text \<open>
  The prelude of the development: Python exceptions as values, the state-and-exception
  programs in which every effectful function of \<^verbatim>\<open>src/src/obsidian_git_sync\<close> is written,
  the collections of rewrite rules the component proofs share, and the two contracts that
  the whole package is built on: operations that never raise (the "fail-soft" house rule)
  and operations that keep an invariant.
\<close>

section \<open>Exceptions\<close>

text \<open>
  The exceptions the package raises or catches by class. \<open>OSError\<close> carries the name of the
  concrete subclass (\<^verbatim>\<open>PermissionError\<close>, \<^verbatim>\<open>FileNotFoundError\<close>, ...), \<open>Raised\<close> is any other
  \<^verbatim>\<open>Exception\<close> with its class name and message. \<^verbatim>\<open>UnicodeDecodeError\<close> is a \<open>ValueError\<close>
  in Python and is one here. All of these are instances of \<^verbatim>\<open>Exception\<close>, so \<^verbatim>\<open>except Exception\<close>
  catches each of them; interrupts of the interpreter are outside the model.
\<close>

datatype exn =
    ValueError string
  | OSError string
  | TimeoutExpired
  | OverflowError string
  | AttributeError string
  | ImportError string
  | Raised string string

fun exn_name :: "exn \<Rightarrow> string" where
  "exn_name (ValueError m) = ''ValueError''"
| "exn_name (OSError c) = c"
| "exn_name TimeoutExpired = ''TimeoutExpired''"
| "exn_name (OverflowError m) = ''OverflowError''"
| "exn_name (AttributeError m) = ''AttributeError''"
| "exn_name (ImportError m) = ''ImportError''"
| "exn_name (Raised c m) = c"

section \<open>Programs\<close>

text \<open>
  A Python statement that reads and writes the state \<open>'s\<close>, and either raises or returns.
\<close>

type_synonym ('s, 'a) prog = "'s \<Rightarrow> (exn + 'a) \<times> 's"

named_theorems prog_simps \<open>unfolding of the program combinators\<close>

definition ret :: "'a \<Rightarrow> ('s, 'a) prog" where
  [prog_simps]: "ret x s = (Inr x, s)"

definition throw :: "exn \<Rightarrow> ('s, 'a) prog" where
  [prog_simps]: "throw e s = (Inl e, s)"

definition seq :: "('s, 'a) prog \<Rightarrow> ('a \<Rightarrow> ('s, 'b) prog) \<Rightarrow> ('s, 'b) prog" where
  "seq m f s = (case m s of (r, s') \<Rightarrow> (case r of Inl e \<Rightarrow> (Inl e, s') | Inr x \<Rightarrow> f x s'))"

definition andthen :: "('s, 'a) prog \<Rightarrow> ('s, 'b) prog \<Rightarrow> ('s, 'b) prog" where
  [prog_simps]: "andthen m m' = seq m (\<lambda>_. m')"

text \<open>
  \<open>attempt m h\<close> is \<^verbatim>\<open>try: m\<close> with handlers: \<open>h e = None\<close> says that no \<^verbatim>\<open>except\<close> clause
  matches, and the exception goes on.
\<close>

definition attempt :: "('s, 'a) prog \<Rightarrow> (exn \<Rightarrow> ('s, 'a) prog option) \<Rightarrow> ('s, 'a) prog" where
  "attempt m h s =
     (case m s of (r, s') \<Rightarrow>
       (case r of
          Inl e \<Rightarrow> (case h e of None \<Rightarrow> (Inl e, s') | Some m' \<Rightarrow> m' s')
        | Inr x \<Rightarrow> (Inr x, s')))"

definition except_any :: "('s, 'a) prog \<Rightarrow> exn \<Rightarrow> ('s, 'a) prog option" where
  [prog_simps]: "except_any m e = Some m"

definition except_timeout :: "('s, 'a) prog \<Rightarrow> exn \<Rightarrow> ('s, 'a) prog option" where
  [prog_simps]: "except_timeout m e = (if e = TimeoutExpired then Some m else None)"

text \<open>The result of a pure function that may raise, as a program.\<close>

definition of_sum :: "exn + 'a \<Rightarrow> ('s, 'a) prog" where
  "of_sum r s = (r, s)"

definition gets :: "('s \<Rightarrow> 'a) \<Rightarrow> ('s, 'a) prog" where
  [prog_simps]: "gets f s = (Inr (f s), s)"

definition modify :: "('s \<Rightarrow> 's) \<Rightarrow> ('s, unit) prog" where
  [prog_simps]: "modify f s = (Inr (), f s)"

fun foreach :: "'a list \<Rightarrow> ('a \<Rightarrow> ('s, unit) prog) \<Rightarrow> ('s, unit) prog" where
  "foreach [] f = ret ()"
| "foreach (x # xs) f = andthen (f x) (foreach xs f)"

fun collect :: "'a list \<Rightarrow> ('a \<Rightarrow> ('s, 'b) prog) \<Rightarrow> ('s, 'b list) prog" where
  "collect [] f = ret []"
| "collect (x # xs) f = seq (f x) (\<lambda>y. seq (collect xs f) (\<lambda>ys. ret (y # ys)))"

text \<open>How the combinators run, once the result of the first part is known.\<close>

lemma seq_Inr [prog_simps]: "m s = (Inr x, s') \<Longrightarrow> seq m f s = f x s'"
  by (simp add: seq_def)

lemma seq_Inl [prog_simps]: "m s = (Inl e, s') \<Longrightarrow> seq m f s = (Inl e, s')"
  by (simp add: seq_def)

lemma seq_ret [simp]: "seq (ret x) f = f x"
  by (rule ext) (simp add: seq_def ret_def)

lemma seq_throw [simp]: "seq (throw e) f = throw e"
  by (rule ext) (simp add: seq_def throw_def)

lemma seq_assoc: "seq (seq m f) g = seq m (\<lambda>x. seq (f x) g)"
  by (rule ext) (simp add: seq_def split: prod.split sum.split)

lemma seq_ret_right [simp]: "seq m ret = m"
  by (rule ext) (simp add: seq_def ret_def split: prod.split sum.split)

lemma attempt_Inr [prog_simps]: "m s = (Inr x, s') \<Longrightarrow> attempt m h s = (Inr x, s')"
  by (simp add: attempt_def)

lemma attempt_Inl [prog_simps]:
  "m s = (Inl e, s') \<Longrightarrow>
   attempt m h s = (case h e of None \<Rightarrow> (Inl e, s') | Some m' \<Rightarrow> m' s')"
  by (simp add: attempt_def)

text \<open>A run that returned, or raised, seen from its end.\<close>

lemma seq_eq_Inr: "seq m f s = (Inr y, s') \<longleftrightarrow> (\<exists>x s1. m s = (Inr x, s1) \<and> f x s1 = (Inr y, s'))"
  by (auto simp: seq_def split: prod.split sum.split)

lemma seq_eq_Inl:
  "seq m f s = (Inl e, s') \<longleftrightarrow> m s = (Inl e, s') \<or> (\<exists>x s1. m s = (Inr x, s1) \<and> f x s1 = (Inl e, s'))"
  by (auto simp: seq_def split: prod.split sum.split)

lemma andthen_eq_Inr:
  "andthen m m' s = (Inr y, s') \<longleftrightarrow> (\<exists>x s1. m s = (Inr x, s1) \<and> m' s1 = (Inr y, s'))"
  by (simp add: andthen_def seq_eq_Inr)

lemma andthen_eq_Inl:
  "andthen m m' s = (Inl e, s') \<longleftrightarrow> m s = (Inl e, s') \<or> (\<exists>x s1. m s = (Inr x, s1) \<and> m' s1 = (Inl e, s'))"
  by (simp add: andthen_def seq_eq_Inl)

lemma attempt_eq:
  "attempt m h s = (r, s') \<longleftrightarrow>
     (\<exists>x. m s = (Inr x, s') \<and> r = Inr x) \<or>
     (\<exists>e s1. m s = (Inl e, s1) \<and>
        (case h e of None \<Rightarrow> r = Inl e \<and> s' = s1 | Some m' \<Rightarrow> m' s1 = (r, s')))"
  by (auto simp: attempt_def split: prod.split sum.split option.splits)

lemma ret_eq [simp]: "ret x s = (r, s') \<longleftrightarrow> r = Inr x \<and> s' = s"
  by (auto simp: ret_def)

lemma throw_eq [simp]: "throw e s = (r, s') \<longleftrightarrow> r = Inl e \<and> s' = s"
  by (auto simp: throw_def)

lemma of_sum_run [simp]: "of_sum r s = (r, s)"
  by (simp add: of_sum_def)

lemma seq_of_sum [simp]: "seq (of_sum (Inr x)) f = f x" "seq (of_sum (Inl e)) f = throw e"
  by (rule ext; simp add: seq_def throw_def)+

lemmas run_ends = seq_eq_Inr seq_eq_Inl andthen_eq_Inr andthen_eq_Inl

lemma never_raises_attempt_any_aux:
  assumes "\<exists>x s'. m' (snd (m s)) = (Inr x, s')"
  shows "\<exists>x s'. attempt m (except_any m') s = (Inr x, s')"
  using assms by (cases "m s") (auto simp: attempt_def except_any_def split: sum.split)

section \<open>Triples\<close>

text \<open>
  \<open>triple P m Q E\<close>: started in a state that satisfies \<open>P\<close>, the program ends in a state (and
  with a value) that satisfies \<open>Q\<close>, or with an exception that satisfies \<open>E\<close>. Programs are total
  functions, so this is total correctness.
\<close>

definition triple ::
  "('s \<Rightarrow> bool) \<Rightarrow> ('s, 'a) prog \<Rightarrow> ('a \<Rightarrow> 's \<Rightarrow> bool) \<Rightarrow> (exn \<Rightarrow> 's \<Rightarrow> bool) \<Rightarrow> bool" where
  "triple P m Q E \<longleftrightarrow>
     (\<forall>s. P s \<longrightarrow> (case m s of (r, s') \<Rightarrow> (case r of Inl e \<Rightarrow> E e s' | Inr x \<Rightarrow> Q x s')))"

lemma tripleI:
  assumes "\<And>s x s'. P s \<Longrightarrow> m s = (Inr x, s') \<Longrightarrow> Q x s'"
    and "\<And>s e s'. P s \<Longrightarrow> m s = (Inl e, s') \<Longrightarrow> E e s'"
  shows "triple P m Q E"
  using assms by (auto simp: triple_def split: prod.split sum.split)

lemma triple_Inr: "triple P m Q E \<Longrightarrow> P s \<Longrightarrow> m s = (Inr x, s') \<Longrightarrow> Q x s'"
  by (fastforce simp: triple_def split: prod.splits sum.splits)

lemma triple_Inl: "triple P m Q E \<Longrightarrow> P s \<Longrightarrow> m s = (Inl e, s') \<Longrightarrow> E e s'"
  by (fastforce simp: triple_def split: prod.splits sum.splits)

lemma triple_ret: "(\<And>s. P s \<Longrightarrow> Q x s) \<Longrightarrow> triple P (ret x) Q E"
  by (simp add: triple_def ret_def)

lemma triple_throw: "(\<And>s. P s \<Longrightarrow> E e s) \<Longrightarrow> triple P (throw e) Q E"
  by (simp add: triple_def throw_def)

lemma triple_gets: "(\<And>s. P s \<Longrightarrow> Q (f s) s) \<Longrightarrow> triple P (gets f) Q E"
  by (simp add: triple_def gets_def)

lemma triple_modify: "(\<And>s. P s \<Longrightarrow> Q () (f s)) \<Longrightarrow> triple P (modify f) Q E"
  by (simp add: triple_def modify_def)

lemma triple_seq:
  assumes "triple P m R E" and "\<And>x. triple (R x) (f x) Q E"
  shows "triple P (seq m f) Q E"
  using assms by (fastforce simp: triple_def seq_def split: prod.splits sum.splits)

lemma triple_andthen:
  assumes "triple P m (\<lambda>_. R) E" and "triple R m' Q E"
  shows "triple P (andthen m m') Q E"
  unfolding andthen_def using assms by (auto intro: triple_seq)

lemma triple_attempt:
  assumes "triple P m Q F"
    and "\<And>e. case h e of None \<Rightarrow> (\<forall>s. F e s \<longrightarrow> E e s) | Some m' \<Rightarrow> triple (F e) m' Q E"
  shows "triple P (attempt m h) Q E"
proof (rule tripleI)
  fix s x s' assume "P s" and run: "attempt m h s = (Inr x, s')"
  then show "Q x s'"
    using assms(1) assms(2)
    by (fastforce simp: attempt_def dest: triple_Inr triple_Inl split: prod.splits sum.splits option.splits)
next
  fix s e s' assume "P s" and run: "attempt m h s = (Inl e, s')"
  then show "E e s'"
    using assms(1) assms(2)
    by (fastforce simp: attempt_def dest: triple_Inr triple_Inl split: prod.splits sum.splits option.splits)
qed

lemma triple_conseq:
  assumes "triple P m Q E" and "\<And>s. P' s \<Longrightarrow> P s"
    and "\<And>x s. Q x s \<Longrightarrow> Q' x s" and "\<And>e s. E e s \<Longrightarrow> E' e s"
  shows "triple P' m Q' E'"
  using assms by (fastforce simp: triple_def split: prod.splits sum.splits)

lemma triple_if:
  assumes "b \<Longrightarrow> triple P m Q E" and "\<not> b \<Longrightarrow> triple P m' Q E"
  shows "triple P (if b then m else m') Q E"
  using assms by simp

lemma triple_foreach:
  assumes "\<And>x. x \<in> set xs \<Longrightarrow> triple I (f x) (\<lambda>_. I) E"
  shows "triple I (foreach xs f) (\<lambda>_. I) E"
  using assms by (induction xs) (auto intro!: triple_ret triple_andthen)

section \<open>Frames\<close>

text \<open>
  \<open>frames f m\<close>: whatever \<open>m\<close> does, and however it ends, the part \<open>f\<close> of the state is as
  before.
\<close>

definition frames :: "('s \<Rightarrow> 'f) \<Rightarrow> ('s, 'a) prog \<Rightarrow> bool" where
  "frames f m \<longleftrightarrow> (\<forall>s. f (snd (m s)) = f s)"

named_theorems frame_intros \<open>composition rules for frames\<close>

lemma framesI: "(\<And>s. f (snd (m s)) = f s) \<Longrightarrow> frames f m"
  by (simp add: frames_def)

lemma framesD: "frames f m \<Longrightarrow> m s = (r, s') \<Longrightarrow> f s' = f s"
  unfolding frames_def by (metis snd_conv)

lemma frames_comp: "frames f m \<Longrightarrow> frames (\<lambda>s. g (f s)) m"
  by (simp add: frames_def)

lemma frames_ret [frame_intros]: "frames f (ret x)"
  by (simp add: frames_def ret_def)

lemma frames_throw [frame_intros]: "frames f (throw e)"
  by (simp add: frames_def throw_def)

lemma frames_of_sum [frame_intros]: "frames f (of_sum r)"
  by (simp add: frames_def)

lemma frames_gets [frame_intros]: "frames f (gets g)"
  by (simp add: frames_def gets_def)

lemma frames_modify [frame_intros]: "(\<And>s. f (g s) = f s) \<Longrightarrow> frames f (modify g)"
  by (simp add: frames_def modify_def)

lemma frames_seq [frame_intros]:
  "frames f m \<Longrightarrow> (\<And>x. frames f (g x)) \<Longrightarrow> frames f (seq m g)"
  unfolding frames_def seq_def by (auto split: prod.split sum.split) (metis snd_conv)+

lemma frames_andthen [frame_intros]: "frames f m \<Longrightarrow> frames f m' \<Longrightarrow> frames f (andthen m m')"
  by (simp add: andthen_def frames_seq)

lemma frames_attempt [frame_intros]:
  "frames f m \<Longrightarrow> (\<And>e m'. h e = Some m' \<Longrightarrow> frames f m') \<Longrightarrow> frames f (attempt m h)"
  unfolding frames_def attempt_def
  by (auto split: prod.split sum.split option.split) (metis snd_conv)+

lemma frames_if [frame_intros]:
  "frames f m \<Longrightarrow> frames f m' \<Longrightarrow> frames f (if b then m else m')"
  by simp

lemma frames_foreach [frame_intros]: "(\<And>x. frames f (g x)) \<Longrightarrow> frames f (foreach xs g)"
  by (induction xs) (auto intro: frame_intros)

lemma frames_collect [frame_intros]: "(\<And>x. frames f (g x)) \<Longrightarrow> frames f (collect xs g)"
  by (induction xs) (auto intro: frame_intros)

section \<open>Results\<close>

text \<open>\<open>yields m Q\<close>: every value that \<open>m\<close> returns satisfies \<open>Q\<close>.\<close>

definition yields :: "('s, 'a) prog \<Rightarrow> ('a \<Rightarrow> bool) \<Rightarrow> bool" where
  "yields m Q \<longleftrightarrow> (\<forall>s x s'. m s = (Inr x, s') \<longrightarrow> Q x)"

lemma yieldsD: "yields m Q \<Longrightarrow> m s = (Inr x, s') \<Longrightarrow> Q x"
  by (auto simp: yields_def)

lemma yields_any: "yields m (\<lambda>_. True)"
  by (simp add: yields_def)

lemma yields_ret: "Q x \<Longrightarrow> yields (ret x) Q"
  by (simp add: yields_def ret_def)

lemma yields_seq:
  "yields m R \<Longrightarrow> (\<And>x. R x \<Longrightarrow> yields (f x) Q) \<Longrightarrow> yields (seq m f) Q"
  unfolding yields_def seq_def by (auto split: prod.splits sum.splits) blast

lemma yields_mono: "yields m R \<Longrightarrow> (\<And>x. R x \<Longrightarrow> Q x) \<Longrightarrow> yields m Q"
  by (auto simp: yields_def)

lemma yields_seq_any: "(\<And>x. yields (f x) Q) \<Longrightarrow> yields (seq m f) Q"
  by (rule yields_seq [OF yields_any])

lemma yields_attempt:
  "yields m Q \<Longrightarrow> (\<And>e m'. h e = Some m' \<Longrightarrow> yields m' Q) \<Longrightarrow> yields (attempt m h) Q"
  unfolding yields_def attempt_def by (auto split: prod.splits sum.splits option.splits)

section \<open>Contracts\<close>

text \<open>
  The fail-soft contract: whatever it is given, in whatever state, an operation returns.
  An operation of this kind can be run over a whole list without losing an element.
\<close>

definition never_raises :: "('s, 'a) prog \<Rightarrow> bool" where
  "never_raises m \<longleftrightarrow> (\<forall>s. \<exists>x s'. m s = (Inr x, s'))"

lemma never_raisesI: "(\<And>s. \<exists>x s'. m s = (Inr x, s')) \<Longrightarrow> never_raises m"
  by (simp add: never_raises_def)

lemma never_raisesE:
  assumes "never_raises m"
  obtains x s' where "m s = (Inr x, s')"
  using assms unfolding never_raises_def by blast

lemma never_raises_ret [simp]: "never_raises (ret x)"
  by (simp add: never_raises_def ret_def)

lemma never_raises_modify [simp]: "never_raises (modify f)"
  by (simp add: never_raises_def modify_def)

lemma never_raises_gets [simp]: "never_raises (gets f)"
  by (simp add: never_raises_def gets_def)

lemma never_raises_of_sum [simp]: "never_raises (of_sum (Inr x))"
  by (simp add: never_raises_def)

lemma never_raises_seq:
  assumes "never_raises m" and "\<And>x. never_raises (f x)"
  shows "never_raises (seq m f)"
proof (rule never_raisesI)
  fix s
  obtain x s' where "m s = (Inr x, s')" using assms(1) by (rule never_raisesE)
  moreover obtain y s'' where "f x s' = (Inr y, s'')" using assms(2) by (rule never_raisesE)
  ultimately show "\<exists>x s'. seq m f s = (Inr x, s')" by (simp add: seq_def)
qed

lemma never_raises_andthen:
  "never_raises m \<Longrightarrow> never_raises m' \<Longrightarrow> never_raises (andthen m m')"
  by (simp add: andthen_def never_raises_seq)

text \<open>\<^verbatim>\<open>try: ... except Exception: handler\<close> is fail-soft when the handler is.\<close>

lemma never_raises_attempt_any:
  "never_raises m' \<Longrightarrow> never_raises (attempt m (except_any m'))"
  by (metis never_raises_def never_raises_attempt_any_aux)

lemma never_raises_if:
  "never_raises m \<Longrightarrow> never_raises m' \<Longrightarrow> never_raises (if b then m else m')"
  by simp

locale fail_soft =
  fixes oper :: "'x \<Rightarrow> ('s, unit) prog"
  assumes soft: "never_raises (oper x)"
begin

lemma foreach_soft: "never_raises (foreach xs oper)"
  by (induction xs) (auto intro: never_raises_andthen soft)

text \<open>Every element is reached: the run over a list splits at any point.\<close>

lemma foreach_append:
  "foreach (xs @ ys) oper s = foreach ys oper (snd (foreach xs oper s))"
proof (induction xs arbitrary: s)
  case Nil
  then show ?case by (simp add: ret_def)
next
  case (Cons x xs)
  obtain u s' where "oper x s = (Inr u, s')" using soft by (rule never_raisesE)
  then show ?case by (simp add: andthen_def seq_def Cons.IH)
qed

end

text \<open>An operation that in addition keeps an invariant of the state.\<close>

locale fail_soft_inv = fail_soft oper for oper :: "'x \<Rightarrow> ('s, unit) prog" +
  fixes inv :: "'s \<Rightarrow> bool"
  assumes keeps: "inv s \<Longrightarrow> inv (snd (oper x s))"
begin

lemma foreach_keeps: "inv s \<Longrightarrow> inv (snd (foreach xs oper s))"
proof (induction xs arbitrary: s)
  case Nil
  then show ?case by (simp add: ret_def)
next
  case (Cons x xs)
  obtain u s' where run: "oper x s = (Inr u, s')" using soft by (rule never_raisesE)
  with keeps [OF Cons.prems, of x] have "inv s'" by simp
  then show ?case using run by (simp add: andthen_def seq_def Cons.IH)
qed

end

text \<open>
  A printer with a parser that reads its output back, on the values that are \<open>valid\<close>.
\<close>

locale codec =
  fixes enc :: "'a \<Rightarrow> string" and dec :: "string \<Rightarrow> 'a option" and valid :: "'a \<Rightarrow> bool"
  assumes dec_enc: "valid x \<Longrightarrow> dec (enc x) = Some x"
begin

lemma enc_inject: "valid x \<Longrightarrow> valid y \<Longrightarrow> enc x = enc y \<longleftrightarrow> x = y"
  using dec_enc by (metis option.inject)

lemma enc_inj_on: "inj_on enc {x. valid x}"
  by (auto intro!: inj_onI simp: enc_inject)

end

section \<open>Step relations\<close>

text \<open>A run: the labels of the steps it makes, in order.\<close>

inductive runs :: "('s \<Rightarrow> 'l \<Rightarrow> 's \<Rightarrow> bool) \<Rightarrow> 's \<Rightarrow> 'l list \<Rightarrow> 's \<Rightarrow> bool"
  for step :: "'s \<Rightarrow> 'l \<Rightarrow> 's \<Rightarrow> bool" where
  runs_start: "runs step s [] s"
| runs_step: "runs step s ls s1 \<Longrightarrow> step s1 l s2 \<Longrightarrow> runs step s (ls @ [l]) s2"

inductive_simps runs_Nil: "runs step s [] s'"

lemma runs_one: "step s l s' \<Longrightarrow> runs step s [l] s'"
  using runs_step [OF runs_start] by fastforce

lemma runs_append: "runs step s1 ks s2 \<Longrightarrow> runs step s ls s1 \<Longrightarrow> runs step s (ls @ ks) s2"
proof (induction rule: runs.induct)
  case (runs_step s1 ks t l s2)
  then have "runs step s ((ls @ ks) @ [l]) s2" by (blast intro: runs.runs_step)
  then show ?case by simp
qed simp

lemma runs_split:
  "runs step s ms s2 \<Longrightarrow> ms = ls @ ks \<Longrightarrow> \<exists>s1. runs step s ls s1 \<and> runs step s1 ks s2"
proof (induction arbitrary: ks rule: runs.induct)
  case (runs_start s)
  then show ?case by (auto intro: runs.runs_start)
next
  case (runs_step s ms s1 l s2)
  show ?case
  proof (cases ks rule: rev_cases)
    case Nil
    with runs_step show ?thesis by (auto intro: runs.intros)
  next
    case (snoc ks' k)
    with runs_step obtain t where "runs step s ls t" "runs step t ks' s1" by auto
    moreover from snoc runs_step.prems have "k = l" by simp
    ultimately show ?thesis using runs_step.hyps(2) snoc by (blast intro: runs.runs_step)
  qed
qed

text \<open>An invariant that every step keeps holds after every run.\<close>

locale step_invariant =
  fixes step :: "'s \<Rightarrow> 'l \<Rightarrow> 's \<Rightarrow> bool" and inv :: "'s \<Rightarrow> bool"
  assumes step_keeps: "inv s \<Longrightarrow> step s l s' \<Longrightarrow> inv s'"
begin

lemma runs_keep: "runs step s ls s' \<Longrightarrow> inv s \<Longrightarrow> inv s'"
  by (induction rule: runs.induct) (auto intro: step_keeps)

end

text \<open>
  A forward simulation: every step of the detailed machine is a step of the abstract one, so
  what the abstract machine can never do, the detailed one never does.
\<close>

locale simulation =
  fixes step :: "'s \<Rightarrow> 'l \<Rightarrow> 's \<Rightarrow> bool" and astep :: "'a \<Rightarrow> 'l \<Rightarrow> 'a \<Rightarrow> bool" and abs :: "'s \<Rightarrow> 'a"
  assumes simulates: "step s l s' \<Longrightarrow> astep (abs s) l (abs s')"
begin

lemma runs_simulate: "runs step s ls s' \<Longrightarrow> runs astep (abs s) ls (abs s')"
  by (induction rule: runs.induct) (auto intro: runs.intros simulates)

end

end
