(* ===== verification/PyText.thy ===== *)
theory PyText
  imports Prelude
begin

text \<open>
  The operations on Python's \<^verbatim>\<open>str\<close> that the package uses. A \<open>string\<close> is a list of
  characters with code points below 256; the code never looks inside a character beyond
  that range, and the classifications below (white space, case, digits) are those of Python
  for these code points.
\<close>

named_theorems text_simps \<open>evaluation of the string operations\<close>

abbreviation code_point :: "char \<Rightarrow> nat" where
  "code_point c \<equiv> of_char c"

abbreviation newline :: char where
  "newline \<equiv> CHR 0x0A"

section \<open>Stripping and case\<close>

text \<open>\<^verbatim>\<open>str.isspace\<close> on one character.\<close>

definition py_space :: "char \<Rightarrow> bool" where
  "py_space c = (let n = code_point c in
     (9 \<le> n \<and> n \<le> 13) \<or> (28 \<le> n \<and> n \<le> 32) \<or> n = 133 \<or> n = 160)"

definition lstrip_if :: "(char \<Rightarrow> bool) \<Rightarrow> string \<Rightarrow> string" where
  "lstrip_if p s = dropWhile p s"

definition rstrip_if :: "(char \<Rightarrow> bool) \<Rightarrow> string \<Rightarrow> string" where
  "rstrip_if p s = rev (dropWhile p (rev s))"

definition strip_if :: "(char \<Rightarrow> bool) \<Rightarrow> string \<Rightarrow> string" where
  "strip_if p s = rstrip_if p (lstrip_if p s)"

definition strip :: "string \<Rightarrow> string" where
  "strip s = strip_if py_space s"

text \<open>\<^verbatim>\<open>str.lower\<close>: A to Z and the accented capitals, except the multiplication sign.\<close>

definition lower_char :: "char \<Rightarrow> char" where
  "lower_char c = (let n = code_point c in
     if (65 \<le> n \<and> n \<le> 90) \<or> (192 \<le> n \<and> n \<le> 222 \<and> n \<noteq> 215)
     then char_of (n + 32) else c)"

definition lower :: "string \<Rightarrow> string" where
  "lower s = map lower_char s"

lemma lstrip_if_id: "s = [] \<or> \<not> p (hd s) \<Longrightarrow> lstrip_if p s = s"
  by (cases s) (auto simp: lstrip_if_def)

lemma rstrip_if_id: "s = [] \<or> \<not> p (last s) \<Longrightarrow> rstrip_if p s = s"
  by (cases s rule: rev_cases) (auto simp: rstrip_if_def)

lemma lstrip_if_hd: "lstrip_if p s = [] \<or> \<not> p (hd (lstrip_if p s))"
  unfolding lstrip_if_def using hd_dropWhile by blast

lemma rstrip_if_last: "rstrip_if p s = [] \<or> \<not> p (last (rstrip_if p s))"
  unfolding rstrip_if_def using hd_dropWhile [of p "rev s"] by (auto simp: last_rev)

lemma rstrip_if_prefix: "\<exists>t. s = rstrip_if p s @ t \<and> (\<forall>c \<in> set t. p c)"
proof -
  have "rev s = takeWhile p (rev s) @ dropWhile p (rev s)" by simp
  then have "s = rstrip_if p s @ rev (takeWhile p (rev s))"
    unfolding rstrip_if_def by (metis rev_append rev_rev_ident)
  moreover have "\<forall>c \<in> set (rev (takeWhile p (rev s))). p c"
    by (auto dest: set_takeWhileD)
  ultimately show ?thesis by blast
qed

lemma rstrip_if_hd: "rstrip_if p s \<noteq> [] \<Longrightarrow> hd (rstrip_if p s) = hd s"
  using rstrip_if_prefix [of s p] by (metis hd_append2)

lemma strip_if_hd: "strip_if p s = [] \<or> \<not> p (hd (strip_if p s))"
  unfolding strip_if_def using lstrip_if_hd [of p s] rstrip_if_hd [of p "lstrip_if p s"]
  by (metis rstrip_if_prefix append_is_Nil_conv)

lemma strip_if_last: "strip_if p s = [] \<or> \<not> p (last (strip_if p s))"
  unfolding strip_if_def by (rule rstrip_if_last)

lemma strip_if_idem [simp]: "strip_if p (strip_if p s) = strip_if p s"
  using strip_if_hd [of p s] strip_if_last [of p s]
  by (simp add: strip_if_def [of p "strip_if p s"] lstrip_if_id rstrip_if_id)

lemma strip_idem [simp]: "strip (strip s) = strip s"
  by (simp add: strip_def)

lemma strip_if_noop: "(\<forall>c \<in> set s. \<not> p c) \<Longrightarrow> strip_if p s = s"
  by (cases "s = []") (simp_all add: strip_if_def lstrip_if_id rstrip_if_id)

lemma strip_id: "(\<forall>c \<in> set s. \<not> py_space c) \<Longrightarrow> strip s = s"
  by (simp add: strip_def strip_if_noop)

lemma strip_if_subset: "set (strip_if p s) \<subseteq> set s"
  by (auto simp: strip_if_def rstrip_if_def lstrip_if_def dest!: set_dropWhileD)

lemma strip_if_Nil_iff: "strip_if p s = [] \<longleftrightarrow> (\<forall>c \<in> set s. p c)"
proof
  assume "strip_if p s = []"
  then have "\<forall>c \<in> set (lstrip_if p s). p c"
    using rstrip_if_prefix [of "lstrip_if p s" p] by (auto simp: strip_if_def)
  then have "lstrip_if p s = []"
    using lstrip_if_hd [of p s] by (meson hd_in_set)
  then show "\<forall>c \<in> set s. p c"
    by (simp add: lstrip_if_def)
qed (auto simp: strip_if_def lstrip_if_def rstrip_if_def dest: set_dropWhileD)

lemma length_lower [simp]: "length (lower s) = length s"
  by (simp add: lower_def)

text \<open>A Python \<^verbatim>\<open>str | None\<close> counts as set when it is a non-empty text.\<close>

fun is_set :: "string option \<Rightarrow> bool" where
  "is_set None = False"
| "is_set (Some s) = (s \<noteq> [])"

section \<open>Searching and splitting\<close>

definition startswith :: "string \<Rightarrow> string \<Rightarrow> bool" where
  "startswith s p = (take (length p) s = p)"

definition endswith :: "string \<Rightarrow> string \<Rightarrow> bool" where
  "endswith s p = startswith (rev s) (rev p)"

lemma startswith_iff: "startswith s p \<longleftrightarrow> (\<exists>t. s = p @ t)"
  unfolding startswith_def by (metis append_eq_conv_conj append_take_drop_id)

lemma endswith_iff: "endswith s p \<longleftrightarrow> (\<exists>t. s = t @ p)"
  unfolding endswith_def startswith_iff by (metis rev_append rev_rev_ident)

text \<open>\<^verbatim>\<open>s.find(sub)\<close> as a distance from the start of \<open>s\<close>; \<open>None\<close> is Python's \<open>-1\<close>.\<close>

fun find_sub :: "string \<Rightarrow> string \<Rightarrow> nat option" where
  "find_sub sub [] = (if sub = [] then Some 0 else None)"
| "find_sub sub (c # s) =
     (if startswith (c # s) sub then Some 0 else map_option Suc (find_sub sub s))"

text \<open>\<^verbatim>\<open>s.find(sub, start)\<close> for a \<open>start\<close> that is not negative.\<close>

definition find_from :: "string \<Rightarrow> string \<Rightarrow> nat \<Rightarrow> nat option" where
  "find_from s sub start =
     (if start \<le> length s then map_option (\<lambda>i. i + start) (find_sub sub (drop start s)) else None)"

lemma find_sub_Some:
  "find_sub sub s = Some i \<Longrightarrow> i \<le> length s \<and> startswith (drop i s) sub"
  by (induction sub s arbitrary: i rule: find_sub.induct)
     (auto simp: startswith_def split: if_splits)

lemma find_sub_least: "find_sub sub s = Some i \<Longrightarrow> j < i \<Longrightarrow> \<not> startswith (drop j s) sub"
proof (induction sub s arbitrary: i j rule: find_sub.induct)
  case (2 sub c s)
  then show ?case by (cases j) (auto split: if_splits)
qed (auto split: if_splits)

lemma find_sub_None: "find_sub sub s = None \<Longrightarrow> \<not> startswith (drop j s) sub"
proof (induction sub s arbitrary: j rule: find_sub.induct)
  case (2 sub c s)
  then show ?case by (cases j) (auto split: if_splits)
qed (auto simp: startswith_def split: if_splits)

lemma find_subI:
  assumes "startswith (drop i s) sub" and "i \<le> length s"
    and "\<And>j. j < i \<Longrightarrow> \<not> startswith (drop j s) sub"
  shows "find_sub sub s = Some i"
proof (cases "find_sub sub s")
  case None
  then show ?thesis using find_sub_None assms(1) by blast
next
  case (Some k)
  then have "\<not> i < k" and "\<not> k < i"
    using find_sub_least [OF Some] find_sub_Some [OF Some] assms by blast+
  then show ?thesis using Some by simp
qed

text \<open>
  \<^verbatim>\<open>s.partition(sep)\<close> for a separator of one character: the part before the first \<open>sep\<close>, whether
  there is one, and the part after it. \<open>rpartition_at\<close> splits at the last one.
\<close>

definition partition_at :: "char \<Rightarrow> string \<Rightarrow> string \<times> bool \<times> string" where
  "partition_at c s = (takeWhile (\<lambda>d. d \<noteq> c) s, c \<in> set s, drop 1 (dropWhile (\<lambda>d. d \<noteq> c) s))"

definition rpartition_at :: "char \<Rightarrow> string \<Rightarrow> string \<times> bool \<times> string" where
  "rpartition_at c s =
     (case partition_at c (rev s) of (a, found, b) \<Rightarrow> (rev b, found, rev a))"

text \<open>\<^verbatim>\<open>s.split(sep)\<close> for a separator of one character, and \<^verbatim>\<open>sep.join(parts)\<close>.\<close>

fun split_on :: "char \<Rightarrow> string \<Rightarrow> string list" where
  "split_on c [] = [[]]"
| "split_on c (d # s) =
     (if d = c then [] # split_on c s
      else (case split_on c s of [] \<Rightarrow> [[d]] | w # ws \<Rightarrow> (d # w) # ws))"

fun join :: "string \<Rightarrow> string list \<Rightarrow> string" where
  "join sep [] = []"
| "join sep [w] = w"
| "join sep (w # ws) = w @ sep @ join sep ws"

lemma split_on_not_Nil [simp]: "split_on c s \<noteq> []"
  by (induction s) (auto split: list.splits)

lemma join_Cons: "ws \<noteq> [] \<Longrightarrow> join sep (w # ws) = w @ sep @ join sep ws"
  by (cases ws) auto

lemma hd_join: "w \<noteq> [] \<Longrightarrow> hd (join sep (w # ws)) = hd w"
  by (cases ws) auto

lemma join_split_on: "join [c] (split_on c s) = s"
proof (induction s)
  case (Cons d s)
  obtain w ws where ws: "split_on c s = w # ws"
    by (cases "split_on c s") auto
  with Cons show ?case
    by (cases ws) auto
qed simp

lemma split_on_no_sep: "w \<in> set (split_on c s) \<Longrightarrow> c \<notin> set w"
proof (induction s arbitrary: w)
  case (Cons d s)
  then show ?case
    by (cases "split_on c s") (auto split: if_splits)
qed simp

lemma split_on_word: "c \<notin> set w \<Longrightarrow> split_on c w = [w]"
  by (induction w) auto

lemma split_on_word_sep: "c \<notin> set w \<Longrightarrow> split_on c (w @ c # s) = w # split_on c s"
  by (induction w) auto

lemma split_on_join:
  "ws \<noteq> [] \<Longrightarrow> (\<forall>w \<in> set ws. c \<notin> set w) \<Longrightarrow> split_on c (join [c] ws) = ws"
proof (induction "[c]" ws rule: join.induct)
  case (3 w v vs)
  then show ?case by (simp add: split_on_word_sep)
qed (simp_all add: split_on_word)

lemma partition_at_eq:
  "partition_at c s = (a, True, b) \<Longrightarrow> s = a @ c # b \<and> c \<notin> set a"
proof (induction s arbitrary: a)
  case (Cons d s)
  then show ?case
    by (cases "d = c") (auto simp: partition_at_def)
qed (simp add: partition_at_def)

lemma partition_at_append:
  "c \<notin> set a \<Longrightarrow> partition_at c (a @ c # b) = (a, True, b)"
  by (induction a) (auto simp: partition_at_def)

lemma partition_at_None: "c \<notin> set s \<Longrightarrow> partition_at c s = (s, False, [])"
  by (induction s) (auto simp: partition_at_def)

section \<open>\<^verbatim>\<open>repr\<close> of a text\<close>

text \<open>
  Single quotes, unless the text has a single quote and no double one; a backslash before the
  quote and the backslash, and escapes for what cannot be printed.
\<close>

definition hex_digit :: "nat \<Rightarrow> char" where
  "hex_digit n = ''0123456789abcdef'' ! n"

definition single_quote :: char where
  "single_quote = CHR 0x27"

definition double_quote :: char where
  "double_quote = CHR 0x22"

definition backslash :: char where
  "backslash = CHR 0x5C"

definition repr_char :: "char \<Rightarrow> char \<Rightarrow> string" where
  "repr_char q c =
     (let n = code_point c in
      if c = q \<or> c = backslash then [backslash, c]
      else if n = 9 then [backslash, CHR ''t'']
      else if n = 10 then [backslash, CHR ''n'']
      else if n = 13 then [backslash, CHR ''r'']
      else if n < 32 \<or> (127 \<le> n \<and> n \<le> 160) \<or> n = 173
      then [backslash, CHR ''x'', hex_digit (n div 16), hex_digit (n mod 16)]
      else [c])"

definition py_repr :: "string \<Rightarrow> string" where
  "py_repr s =
     (let q = (if single_quote \<in> set s \<and> double_quote \<notin> set s then double_quote else single_quote)
      in [q] @ concat (map (repr_char q) s) @ [q])"

end
