(* ===== verification/PyNum.thy ===== *)
theory PyNum
  imports PyText
begin

text \<open>
  Python's \<^verbatim>\<open>int(text)\<close> and \<^verbatim>\<open>str(n)\<close>: the decimal forms of integers, with the
  interpreter's rules for white space, signs, underscores and the limit on the number of
  digits.
\<close>

section \<open>Decimal digits\<close>

definition is_digit :: "char \<Rightarrow> bool" where
  "is_digit c = (48 \<le> code_point c \<and> code_point c \<le> 57)"

definition digit_val :: "char \<Rightarrow> nat" where
  "digit_val c = code_point c - 48"

definition digit_char :: "nat \<Rightarrow> char" where
  "digit_char d = char_of (48 + d)"

lemma digit_code [simp]: "d < 10 \<Longrightarrow> code_point (digit_char d) = 48 + d"
  by (simp add: digit_char_def take_bit_eq_mod flip: take_bit_eq_mod)

lemma digit_char_digit [simp]: "d < 10 \<Longrightarrow> is_digit (digit_char d)"
  by (simp add: is_digit_def)

lemma digit_val_char [simp]: "d < 10 \<Longrightarrow> digit_val (digit_char d) = d"
  by (simp add: digit_val_def)

lemma digit_val_less [simp]: "is_digit c \<Longrightarrow> digit_val c < 10"
  by (auto simp: is_digit_def digit_val_def)

lemma digit_char_val [simp]: "is_digit c \<Longrightarrow> digit_char (digit_val c) = c"
  by (auto simp: is_digit_def digit_val_def digit_char_def)

lemma is_digit_not_space: "is_digit c \<Longrightarrow> \<not> py_space c"
  by (auto simp: is_digit_def py_space_def Let_def)

fun digits_val_acc :: "nat \<Rightarrow> string \<Rightarrow> nat" where
  "digits_val_acc n [] = n"
| "digits_val_acc n (c # s) = digits_val_acc (10 * n + digit_val c) s"

definition digits_val :: "string \<Rightarrow> nat" where
  "digits_val s = digits_val_acc 0 s"

lemma digits_val_acc_append: "digits_val_acc n (s @ t) = digits_val_acc (digits_val_acc n s) t"
  by (induction s arbitrary: n) auto

lemma digits_val_snoc: "digits_val (s @ [c]) = 10 * digits_val s + digit_val c"
  by (simp add: digits_val_def digits_val_acc_append)

lemma digits_val_Nil [simp]: "digits_val [] = 0"
  by (simp add: digits_val_def)

lemma digits_val_bound: "(\<forall>c \<in> set s. is_digit c) \<Longrightarrow> digits_val s < 10 ^ length s"
proof (induction s rule: rev_induct)
  case (snoc c s)
  then have "digits_val s < 10 ^ length s" and "digit_val c < 10" by auto
  then show ?case by (simp add: digits_val_snoc)
qed simp

text \<open>\<^verbatim>\<open>str(n)\<close> of a natural number, and of an integer.\<close>

fun str_of_nat :: "nat \<Rightarrow> string" where
  "str_of_nat n =
     (if n < 10 then [digit_char n] else str_of_nat (n div 10) @ [digit_char (n mod 10)])"

declare str_of_nat.simps [simp del]

definition str_of_int :: "int \<Rightarrow> string" where
  "str_of_int i = (if i < 0 then CHR ''-'' # str_of_nat (nat (- i)) else str_of_nat (nat i))"

lemma str_of_nat_not_Nil [simp]: "str_of_nat n \<noteq> []"
  by (subst str_of_nat.simps) simp

lemma str_of_nat_digits: "\<forall>c \<in> set (str_of_nat n). is_digit c"
proof (induction n rule: str_of_nat.induct)
  case (1 n)
  then show ?case by (subst str_of_nat.simps) auto
qed

lemma digits_val_str_of_nat [simp]: "digits_val (str_of_nat n) = n"
proof (induction n rule: str_of_nat.induct)
  case (1 n)
  show ?case
  proof (cases "n < 10")
    case True
    then show ?thesis by (subst str_of_nat.simps) (simp add: digits_val_def)
  next
    case False
    with 1 show ?thesis by (subst str_of_nat.simps) (simp add: digits_val_snoc)
  qed
qed

lemma str_of_nat_inject [simp]: "str_of_nat m = str_of_nat n \<longleftrightarrow> m = n"
  by (metis digits_val_str_of_nat)

text \<open>Zero-padding on the left, the \<^verbatim>\<open>%0kd\<close> of a format.\<close>

fun pad_nat :: "nat \<Rightarrow> nat \<Rightarrow> string" where
  "pad_nat 0 n = []"
| "pad_nat (Suc k) n = pad_nat k (n div 10) @ [digit_char (n mod 10)]"

lemma length_pad_nat [simp]: "length (pad_nat k n) = k"
  by (induction k n rule: pad_nat.induct) auto

lemma pad_nat_digits: "\<forall>c \<in> set (pad_nat k n). is_digit c"
  by (induction k n rule: pad_nat.induct) auto

lemma digits_val_pad_nat: "n < 10 ^ k \<Longrightarrow> digits_val (pad_nat k n) = n"
proof (induction k n rule: pad_nat.induct)
  case (2 k n)
  then have "n div 10 < 10 ^ k" by (simp add: less_mult_imp_div_less mult.commute)
  with 2 show ?case by (simp add: digits_val_snoc)
qed simp

section \<open>\<^verbatim>\<open>int(text)\<close>\<close>

text \<open>
  The white space the number parsers skip at both ends: the ASCII kinds, and the two
  non-ASCII spaces, which CPython turns into blanks first. (\<^verbatim>\<open>\x1c\<close> to \<^verbatim>\<open>\x1f\<close> are white space
  for \<^verbatim>\<open>str.strip\<close> only.)
\<close>

definition num_space :: "char \<Rightarrow> bool" where
  "num_space c = (let n = code_point c in (9 \<le> n \<and> n \<le> 13) \<or> n = 32 \<or> n = 133 \<or> n = 160)"

text \<open>An underscore must stand between two digits.\<close>

fun drop_underscores :: "bool \<Rightarrow> string \<Rightarrow> string option" where
  "drop_underscores prev [] = Some []"
| "drop_underscores prev (c # s) =
     (if c = CHR ''_'' then
        (if prev \<and> (case s of [] \<Rightarrow> False | d # _ \<Rightarrow> is_digit d)
         then drop_underscores False s else None)
      else map_option (\<lambda>t. c # t) (drop_underscores (is_digit c) s))"

definition split_sign :: "string \<Rightarrow> bool \<times> string" where
  "split_sign s = (case s of [] \<Rightarrow> (False, [])
     | c # t \<Rightarrow> if c = CHR ''-'' then (True, t) else if c = CHR ''+'' then (False, t) else (False, s))"

text \<open>The interpreter's default \<^verbatim>\<open>sys.int_info.default_max_str_digits\<close>.\<close>

definition max_str_digits :: nat where
  "max_str_digits = 4300"

definition int_of_text :: "string \<Rightarrow> int option" where
  "int_of_text s =
     (case split_sign (strip_if num_space s) of (neg, t) \<Rightarrow>
       (case drop_underscores False t of
          None \<Rightarrow> None
        | Some ds \<Rightarrow>
            if ds \<noteq> [] \<and> list_all is_digit ds \<and> length ds \<le> max_str_digits
            then Some (if neg then - int (digits_val ds) else int (digits_val ds))
            else None))"

lemma drop_underscores_digits: "(\<forall>c \<in> set s. is_digit c) \<Longrightarrow> drop_underscores b s = Some s"
  by (induction s arbitrary: b) (auto simp: is_digit_def)

lemma is_digit_not_num_space: "is_digit c \<Longrightarrow> \<not> num_space c"
  by (auto simp: is_digit_def num_space_def Let_def)

lemma strip_num_digits: "(\<forall>c \<in> set s. is_digit c) \<Longrightarrow> strip_if num_space s = s"
  by (simp add: strip_if_noop is_digit_not_num_space)

lemma split_sign_digits: "(\<forall>c \<in> set s. is_digit c) \<Longrightarrow> split_sign s = (False, s)"
  by (cases s) (auto simp: split_sign_def is_digit_def)

lemma int_of_text_digits:
  assumes "\<forall>c \<in> set s. is_digit c" and "s \<noteq> []" and "length s \<le> max_str_digits"
  shows "int_of_text s = Some (int (digits_val s))"
  using assms
  by (simp add: int_of_text_def strip_num_digits split_sign_digits drop_underscores_digits
      list_all_iff)

lemma int_of_text_nat:
  "length (str_of_nat n) \<le> max_str_digits \<Longrightarrow> int_of_text (str_of_nat n) = Some (int n)"
  using int_of_text_digits [of "str_of_nat n"] str_of_nat_digits by simp

lemma int_of_text_neg:
  assumes "length (str_of_nat n) \<le> max_str_digits"
  shows "int_of_text (CHR ''-'' # str_of_nat n) = Some (- int n)"
proof -
  have "strip_if num_space (CHR ''-'' # str_of_nat n) = CHR ''-'' # str_of_nat n"
    by (rule strip_if_noop) (use str_of_nat_digits is_digit_not_num_space in \<open>auto simp: num_space_def\<close>)
  then show ?thesis
    using assms str_of_nat_digits
    by (simp add: int_of_text_def split_sign_def drop_underscores_digits list_all_iff)
qed

text \<open>Reading back what \<^verbatim>\<open>str\<close> prints.\<close>

lemma int_of_text_str_of_int:
  "length (str_of_nat (nat \<bar>i\<bar>)) \<le> max_str_digits \<Longrightarrow> int_of_text (str_of_int i) = Some i"
  by (auto simp: str_of_int_def int_of_text_nat int_of_text_neg)

interpretation decimal: codec str_of_int int_of_text
  "\<lambda>i. length (str_of_nat (nat \<bar>i\<bar>)) \<le> max_str_digits"
  by unfold_locales (rule int_of_text_str_of_int)

end
