(* ===== verification/PyFloat.thy ===== *)
theory PyFloat
  imports PyNum Complex_Main
begin

text \<open>
  Python's \<^verbatim>\<open>float\<close>: IEEE double precision numbers as the rationals they stand for, with the
  two infinities and NaN. (The sign of a zero is not kept: no operation of the package can
  see it.) Reading a number and subtracting two numbers round to the nearest double, ties to
  even, as the hardware does.
\<close>

datatype pyfloat = Fin rat | PInf | NInf | NaN

section \<open>Rounding\<close>

fun bits :: "nat \<Rightarrow> nat" where
  "bits n = (if n = 0 then 0 else Suc (bits (n div 2)))"

declare bits.simps [simp del]

definition pow2 :: "int \<Rightarrow> rat" where
  "pow2 k = (if 0 \<le> k then 2 ^ nat k else 1 / 2 ^ nat (- k))"

text \<open>\<open>ilog2 q\<close> is the exponent of the largest power of two that is not above \<open>q > 0\<close>.\<close>

definition ilog2 :: "rat \<Rightarrow> int" where
  "ilog2 q = (case quotient_of q of (n, d) \<Rightarrow>
     let k = int (bits (nat n)) - int (bits (nat d)) in if pow2 k \<le> q then k else k - 1)"

definition round_half_even :: "rat \<Rightarrow> int" where
  "round_half_even x = (let f = \<lfloor>x\<rfloor>; r = x - of_int f in
     if r < 1 / 2 then f else if 1 / 2 < r then f + 1 else if even f then f else f + 1)"

definition double_of_rat :: "rat \<Rightarrow> pyfloat" where
  "double_of_rat q =
     (if q = 0 then Fin 0
      else let a = \<bar>q\<bar>; k = max (ilog2 a - 52) (- 1074);
               v = of_int (round_half_even (a / pow2 k)) * pow2 k
           in if pow2 1024 \<le> v then (if 0 < q then PInf else NInf)
              else Fin (if 0 < q then v else - v))"

lemma pow2_pos [simp]: "0 < pow2 k"
  by (simp add: pow2_def)

lemma pow2_add: "pow2 (j + k) = pow2 j * pow2 k"
proof -
  have eq: "pow2 i = 2 powi i" for i
    by (simp add: pow2_def power_int_def inverse_eq_divide power_divide)
  show ?thesis by (simp add: eq power_int_add)
qed

lemma bits_bounds: "0 < n \<Longrightarrow> 2 ^ (bits n - 1) \<le> n \<and> n < 2 ^ bits n \<and> 0 < bits n"
proof (induction n rule: bits.induct)
  case (1 n)
  show ?case
  proof (cases "n = 1")
    case True
    then show ?thesis by (simp add: bits.simps [of "Suc 0"] bits.simps [of 0])
  next
    case False
    with 1 have IH: "2 ^ (bits (n div 2) - 1) \<le> n div 2" "n div 2 < 2 ^ bits (n div 2)"
      "0 < bits (n div 2)" by auto
    have "2 * 2 ^ (bits (n div 2) - 1) = (2::nat) ^ bits (n div 2)"
      using IH(3) by (simp flip: power_Suc)
    then have "2 ^ bits (n div 2) \<le> n" and "n < 2 * 2 ^ bits (n div 2)"
      using IH by linarith+
    then show ?thesis using 1(2) by (simp add: bits.simps [of n])
  qed
qed

lemma round_half_even_nonneg: "0 \<le> x \<Longrightarrow> 0 \<le> round_half_even x"
  by (auto simp: round_half_even_def Let_def)

lemma round_half_even_of_int [simp]: "round_half_even (of_int z) = z"
  by (simp add: round_half_even_def)

text \<open>Rounding keeps the sign: a number that is not positive never becomes positive.\<close>

lemma double_of_rat_nonpos:
  assumes "q \<le> 0"
  shows "double_of_rat q = NInf \<or> (\<exists>v \<le> 0. double_of_rat q = Fin v)"
proof (cases "q = 0")
  case False
  define k where "k = max (ilog2 \<bar>q\<bar> - 52) (- 1074)"
  have "0 \<le> of_int (round_half_even (\<bar>q\<bar> / pow2 k)) * pow2 k"
    by (intro mult_nonneg_nonneg) (simp_all add: round_half_even_nonneg less_imp_le)
  with assms False show ?thesis by (auto simp: double_of_rat_def Let_def k_def)
qed (auto simp: double_of_rat_def)

text \<open>Integers up to \<open>2 ^ 53\<close> are exact.\<close>

lemma ilog2_le:
  assumes "0 < q" and "q < pow2 m"
  shows "ilog2 q \<le> m - 1"
proof -
  have "pow2 (ilog2 q) \<le> q"
  proof -
    obtain n d where nd: "quotient_of q = (n, d)" by (cases "quotient_of q")
    then have q: "q = of_int n / of_int d" and d: "0 < d"
      using quotient_of_div quotient_of_denom_pos by blast+
    with assms(1) have n: "0 < n" by (simp add: zero_less_divide_iff)
    define i where "i = bits (nat n)"
    define j where "j = bits (nat d)"
    have i: "2 ^ (i - 1) \<le> nat n" "0 < i" and j: "nat d < 2 ^ j"
      using bits_bounds [of "nat n"] bits_bounds [of "nat d"] n d by (auto simp: i_def j_def)
    have "int (2 ^ (i - 1)) \<le> int (nat n)" and "int (nat d) < int (2 ^ j)"
      using i(1) j by (simp_all only: of_nat_le_iff of_nat_less_iff)
    moreover have "int (nat n) = n" and "int (nat d) = d" using n d by linarith+
    ultimately have "(2::int) ^ (i - 1) \<le> n" and "d < 2 ^ j"
      by (simp_all only: of_nat_power of_nat_numeral)
    then have "(2::rat) ^ (i - 1) \<le> of_int n" and dj: "of_int d < (2::rat) ^ j"
      by (metis of_int_le_iff of_int_numeral of_int_power,
          metis of_int_less_iff of_int_numeral of_int_power)
    then have "2 ^ (i - 1) / 2 ^ j \<le> of_int n / (of_int d :: rat)"
      using d n by (intro frac_le) auto
    moreover have "pow2 (int i - int j - 1) = 2 ^ (i - 1) / 2 ^ j"
    proof -
      have "pow2 (int i - int j - 1) = pow2 (int (i - 1)) * pow2 (- int j)"
        using i(2) by (simp flip: pow2_add add: of_nat_diff algebra_simps)
      then show ?thesis by (simp add: pow2_def)
    qed
    ultimately have "pow2 (int i - int j - 1) \<le> q" by (simp add: q)
    then show ?thesis by (simp add: ilog2_def nd Let_def i_def j_def)
  qed
  with assms(2) have lt: "pow2 (ilog2 q) < pow2 m" by simp
  show ?thesis
  proof (rule ccontr)
    assume "\<not> ?thesis"
    then obtain t where "ilog2 q = m + int t" by (metis add.commute linorder_not_le zle_iff_zadd zle_diff1_eq diff_add_cancel)
    moreover have "1 \<le> pow2 (int t)" by (simp add: pow2_def)
    ultimately have "pow2 m \<le> pow2 (ilog2 q)" by (simp add: pow2_add)
    with lt show False by simp
  qed
qed

lemma double_of_int:
  assumes "\<bar>z\<bar> < 2 ^ 53"
  shows "double_of_rat (of_int z) = Fin (of_int z)"
proof (cases "z = 0")
  case False
  define a :: rat where "a = of_int \<bar>z\<bar>"
  define k where "k = max (ilog2 a - 52) (- 1074)"
  have "of_int \<bar>z\<bar> < (of_int (2 ^ 53) :: rat)" using assms by (simp only: of_int_less_iff)
  then have small: "a < pow2 53" by (simp add: a_def pow2_def)
  have "ilog2 a \<le> 52"
    using ilog2_le [of a 53] False small by (simp add: a_def)
  then have "k \<le> 0" by (simp add: k_def)
  have "a / pow2 k = of_int (\<bar>z\<bar> * 2 ^ nat (- k))"
    using \<open>k \<le> 0\<close> by (cases "k = 0") (simp_all add: pow2_def a_def)
  then have "round_half_even (a / pow2 k) = \<bar>z\<bar> * 2 ^ nat (- k)"
    by (simp only: round_half_even_of_int)
  then have "of_int (round_half_even (a / pow2 k)) * pow2 k = a"
    using \<open>k \<le> 0\<close> by (cases "k = 0") (simp_all add: pow2_def a_def)
  moreover have "a < pow2 1024"
  proof -
    have "pow2 53 \<le> pow2 1024" by (simp add: pow2_def)
    with small show ?thesis by simp
  qed
  ultimately show ?thesis
    using False by (auto simp: double_of_rat_def Let_def a_def k_def abs_if)
qed (simp add: double_of_rat_def)

text \<open>Rounding moves a number of that size up by at most one.\<close>

lemma round_half_even_le: "of_int (round_half_even x) \<le> x + 1"
proof -
  have "of_int \<lfloor>x\<rfloor> \<le> x + 1" using of_int_floor_le [of x] by linarith
  then show ?thesis by (simp add: round_half_even_def Let_def)
qed

lemma double_of_rat_le:
  assumes "0 < q" and "q < pow2 53"
  shows "\<exists>v. double_of_rat q = Fin v \<and> v \<le> q + 1"
proof -
  define k where "k = max (ilog2 q - 52) (- 1074)"
  define v where "v = of_int (round_half_even (q / pow2 k)) * pow2 k"
  have "k \<le> 0" using ilog2_le [OF assms] by (simp add: k_def)
  then have k1: "pow2 k \<le> 1" by (cases "k = 0") (simp_all add: pow2_def)
  have "v \<le> (q / pow2 k + 1) * pow2 k"
    unfolding v_def by (intro mult_right_mono round_half_even_le) (simp add: less_imp_le)
  also have "\<dots> = q + pow2 k" by (simp add: distrib_right less_imp_neq [OF pow2_pos, symmetric])
  finally have v: "v \<le> q + 1" using k1 by simp
  have "pow2 53 + 1 < pow2 1024" by (simp add: pow2_def)
  with v assms(2) have "\<not> pow2 1024 \<le> v" by simp
  then have "double_of_rat q = Fin v" using assms(1) by (simp add: double_of_rat_def Let_def k_def v_def)
  with v show ?thesis by blast
qed

section \<open>Arithmetic and comparison\<close>

fun f_sub :: "pyfloat \<Rightarrow> pyfloat \<Rightarrow> pyfloat" where
  "f_sub (Fin a) (Fin b) = double_of_rat (a - b)"
| "f_sub NaN _ = NaN"
| "f_sub _ NaN = NaN"
| "f_sub PInf PInf = NaN"
| "f_sub NInf NInf = NaN"
| "f_sub PInf _ = PInf"
| "f_sub NInf _ = NInf"
| "f_sub (Fin a) PInf = NInf"
| "f_sub (Fin a) NInf = PInf"

text \<open>Every comparison with NaN is false.\<close>

fun f_le :: "pyfloat \<Rightarrow> pyfloat \<Rightarrow> bool" where
  "f_le (Fin a) (Fin b) = (a \<le> b)"
| "f_le NaN _ = False"
| "f_le _ NaN = False"
| "f_le NInf _ = True"
| "f_le _ PInf = True"
| "f_le PInf _ = False"
| "f_le (Fin a) NInf = False"

fun f_lt :: "pyfloat \<Rightarrow> pyfloat \<Rightarrow> bool" where
  "f_lt (Fin a) (Fin b) = (a < b)"
| "f_lt NaN _ = False"
| "f_lt _ NaN = False"
| "f_lt PInf _ = False"
| "f_lt _ NInf = False"
| "f_lt NInf _ = True"
| "f_lt (Fin a) PInf = True"

lemma f_lt_iff: "x \<noteq> NaN \<Longrightarrow> y \<noteq> NaN \<Longrightarrow> f_lt x y \<longleftrightarrow> \<not> f_le y x"
  by (cases x; cases y) auto

text \<open>\<^verbatim>\<open>int(x)\<close> rounds towards zero and refuses what is not a finite number.\<close>

definition trunc_rat :: "rat \<Rightarrow> int" where
  "trunc_rat q = (if q < 0 then - \<lfloor>- q\<rfloor> else \<lfloor>q\<rfloor>)"

fun int_of_float :: "pyfloat \<Rightarrow> exn + int" where
  "int_of_float (Fin q) = Inr (trunc_rat q)"
| "int_of_float NaN = Inl (ValueError ''cannot convert float NaN to integer'')"
| "int_of_float PInf = Inl (OverflowError ''cannot convert float infinity to integer'')"
| "int_of_float NInf = Inl (OverflowError ''cannot convert float infinity to integer'')"

lemma trunc_rat_of_int [simp]: "trunc_rat (of_int z) = z"
  by (simp add: trunc_rat_def flip: of_int_minus)

lemma trunc_rat_nonneg: "0 \<le> q \<Longrightarrow> 0 \<le> trunc_rat q"
  by (simp add: trunc_rat_def)

lemma trunc_rat_nonpos: "q \<le> 0 \<Longrightarrow> trunc_rat q \<le> 0"
  by (simp add: trunc_rat_def)

section \<open>\<^verbatim>\<open>float(text)\<close>\<close>

text \<open>
  The number grammar: a sign, then \<^verbatim>\<open>inf\<close>, \<^verbatim>\<open>infinity\<close> or \<^verbatim>\<open>nan\<close> in any case, or digits with at most
  one point and at least one digit, and an optional exponent. An exponent beyond 19999 counts
  as 19999, as in the interpreter.
\<close>

definition exponent_of :: "string \<Rightarrow> int option" where
  "exponent_of s = (case split_sign s of (neg, ds) \<Rightarrow>
     if ds \<noteq> [] \<and> list_all is_digit ds
     then (let e = int (min (digits_val ds) 19999) in Some (if neg then - e else e))
     else None)"

definition decimal_of :: "string \<Rightarrow> rat option" where
  "decimal_of s =
     (let ip = takeWhile is_digit s; r = dropWhile is_digit s;
          point = (r \<noteq> [] \<and> hd r = CHR ''.'');
          fp = (if point then takeWhile is_digit (tl r) else []);
          r' = (if point then dropWhile is_digit (tl r) else r);
          m = of_nat (digits_val (ip @ fp)); n = int (length fp)
      in if ip @ fp = [] then None
         else if r' = [] then Some (m / 10 ^ length fp)
         else if hd r' = CHR ''e'' \<or> hd r' = CHR ''E''
         then (case exponent_of (tl r') of
                 None \<Rightarrow> None
               | Some e \<Rightarrow> Some (if n \<le> e then m * 10 ^ nat (e - n) else m / 10 ^ nat (n - e)))
         else None)"

definition float_of_text :: "string \<Rightarrow> pyfloat option" where
  "float_of_text s =
     (case drop_underscores False (strip_if num_space s) of
        None \<Rightarrow> None
      | Some t \<Rightarrow>
          (case split_sign t of (neg, u) \<Rightarrow>
             let w = lower u in
             if w = ''inf'' \<or> w = ''infinity'' then Some (if neg then NInf else PInf)
             else if w = ''nan'' then Some NaN
             else map_option (\<lambda>q. double_of_rat (if neg then - q else q)) (decimal_of u)))"

lemma takeWhile_digits: "(\<forall>c \<in> set s. is_digit c) \<Longrightarrow> takeWhile is_digit s = s"
  by (simp add: takeWhile_eq_all_conv)

lemma decimal_of_digits:
  assumes "\<forall>c \<in> set s. is_digit c" and "s \<noteq> []"
  shows "decimal_of s = Some (of_nat (digits_val s))"
proof -
  have "dropWhile is_digit s = []" using assms(1) by (simp add: dropWhile_eq_Nil_conv)
  with assms show ?thesis by (simp add: decimal_of_def Let_def takeWhile_digits)
qed

lemma lower_digits: "(\<forall>c \<in> set s. is_digit c) \<Longrightarrow> lower s = s"
  by (induction s) (auto simp: lower_def lower_char_def is_digit_def Let_def)

text \<open>A decimal number below \<open>2 ^ 53\<close> is read exactly.\<close>

lemma float_of_text_nat:
  assumes "n < 2 ^ 53"
  shows "float_of_text (str_of_nat n) = Some (Fin (of_nat n))"
proof -
  let ?s = "str_of_nat n"
  have d: "\<forall>c \<in> set ?s. is_digit c" by (rule str_of_nat_digits)
  have "?s \<noteq> ''inf'' \<and> ?s \<noteq> ''infinity'' \<and> ?s \<noteq> ''nan''"
    using d by (auto simp: is_digit_def)
  moreover have "double_of_rat (of_int (int n)) = Fin (of_int (int n))"
    using assms by (intro double_of_int) auto
  ultimately show ?thesis
    using d by (simp add: float_of_text_def strip_num_digits drop_underscores_digits
        split_sign_digits lower_digits decimal_of_digits Let_def)
qed

end
