(* ===== verification/PyPath.thy ===== *)
theory PyPath
  imports PyText "HOL-Library.List_Lexorder" "HOL-Library.Char_ord"
begin

text \<open>
  \<^verbatim>\<open>pathlib.Path\<close> on a POSIX system: a root (empty, \<^verbatim>\<open>/\<close> or \<^verbatim>\<open>//\<close>) and the components, with
  empty and \<^verbatim>\<open>.\<close> components dropped when a path is parsed.
\<close>

record path =
  root :: string
  parts :: "string list"

abbreviation slash :: char where
  "slash \<equiv> CHR ''/''"

definition path_parts_of :: "string \<Rightarrow> string list" where
  "path_parts_of s = filter (\<lambda>w. w \<noteq> [] \<and> w \<noteq> ''.'') (split_on slash s)"

definition path_root_of :: "string \<Rightarrow> string" where
  "path_root_of s =
     (if \<not> startswith s ''/'' then ''''
      else if startswith s ''//'' \<and> \<not> startswith s ''///'' then ''//'' else ''/'')"

definition path_of :: "string \<Rightarrow> path" where
  "path_of s = \<lparr>root = path_root_of s, parts = path_parts_of s\<rparr>"

definition path_str :: "path \<Rightarrow> string" where
  "path_str p = (if root p = '''' \<and> parts p = [] then ''.''
                 else root p @ join ''/'' (parts p))"

text \<open>\<open>joinpath p s\<close> is \<^verbatim>\<open>p / s\<close>: an absolute \<open>s\<close> replaces \<open>p\<close>.\<close>

definition joinpath :: "path \<Rightarrow> string \<Rightarrow> path" where
  "joinpath p s = (if startswith s ''/'' then path_of s
                   else p\<lparr>parts := parts p @ path_parts_of s\<rparr>)"

text \<open>A path below \<open>p\<close>, by its components as the directory lists them.\<close>

definition descend :: "path \<Rightarrow> string list \<Rightarrow> path" where
  "descend p ws = p\<lparr>parts := parts p @ ws\<rparr>"

definition path_name :: "path \<Rightarrow> string" where
  "path_name p = (if parts p = [] then '''' else last (parts p))"

text \<open>\<^verbatim>\<open>suffix\<close>: from the last dot of the name, unless it is the first or the last character.\<close>

definition suffix :: "path \<Rightarrow> string" where
  "suffix p = (case rpartition_at (CHR ''.'') (path_name p) of (stem, found, ext) \<Rightarrow>
     if found \<and> stem \<noteq> [] \<and> ext \<noteq> [] then CHR ''.'' # ext else '''')"

text \<open>\<^verbatim>\<open>p.relative_to(base).as_posix()\<close>, for a \<open>p\<close> that lies below \<open>base\<close>.\<close>

definition relative_posix :: "path \<Rightarrow> path \<Rightarrow> string" where
  "relative_posix p base =
     path_str \<lparr>root = '''', parts = drop (length (parts base)) (parts p)\<rparr>"

text \<open>Paths are compared by the components of their text.\<close>

definition path_key :: "path \<Rightarrow> string list" where
  "path_key p = split_on slash (path_str p)"

lemma path_parts_of_clean:
  "w \<in> set (path_parts_of s) \<Longrightarrow> w \<noteq> [] \<and> w \<noteq> ''.'' \<and> slash \<notin> set w"
  by (auto simp: path_parts_of_def dest: split_on_no_sep)

lemma parts_descend [simp]: "parts (descend p ws) = parts p @ ws"
  by (simp add: descend_def)

lemma relative_descend:
  "ws \<noteq> [] \<Longrightarrow> relative_posix (descend p ws) p = join ''/'' ws"
  by (simp add: relative_posix_def path_str_def)

lemma path_name_descend: "ws \<noteq> [] \<Longrightarrow> path_name (descend p ws) = last ws"
  by (simp add: path_name_def)

text \<open>
  Parsing the text of a path gives the path back, when the path was made by parsing: its
  components are clean and its root is one of the three.
\<close>

definition wf_path :: "path \<Rightarrow> bool" where
  "wf_path p \<longleftrightarrow> root p \<in> {'''', ''/'', ''//''} \<and>
     (\<forall>w \<in> set (parts p). w \<noteq> [] \<and> w \<noteq> ''.'' \<and> slash \<notin> set w)"

lemma wf_path_of: "wf_path (path_of s)"
  using path_parts_of_clean by (auto simp: wf_path_def path_of_def path_root_of_def)

lemma startswith_slash: "startswith s ''/'' \<longleftrightarrow> s \<noteq> [] \<and> hd s = slash"
  by (cases s) (auto simp: startswith_def)

lemma path_parts_of_join:
  assumes "\<forall>w \<in> set ws. w \<noteq> [] \<and> w \<noteq> ''.'' \<and> slash \<notin> set w"
  shows "path_parts_of (join ''/'' ws) = ws"
proof (cases "ws = []")
  case False
  with assms have "split_on slash (join ''/'' ws) = ws" by (simp add: split_on_join)
  with assms show ?thesis by (simp add: path_parts_of_def)
qed (simp add: path_parts_of_def)

lemma join_no_slash_start:
  assumes "\<forall>w \<in> set ws. w \<noteq> [] \<and> w \<noteq> ''.'' \<and> slash \<notin> set w"
  shows "join ''/'' ws = [] \<or> hd (join ''/'' ws) \<noteq> slash"
proof (cases ws)
  case (Cons w ws')
  with assms have w: "w \<noteq> []" "slash \<notin> set w" by auto
  then have "hd w \<noteq> slash" by (metis hd_in_set)
  with w Cons show ?thesis by (simp add: hd_join)
qed simp

lemma startswith_root:
  assumes "join ''/'' ws = [] \<or> hd (join ''/'' ws) \<noteq> slash"
  shows "path_root_of (join ''/'' ws) = ''''"
    and "path_root_of (slash # join ''/'' ws) = ''/''"
    and "path_root_of (slash # slash # join ''/'' ws) = ''//''"
  using assms by (cases "join ''/'' ws"; auto simp: path_root_of_def startswith_def)+

lemma path_of_str: "wf_path p \<Longrightarrow> path_of (path_str p) = p"
proof -
  assume wf: "wf_path p"
  then have clean: "\<forall>w \<in> set (parts p). w \<noteq> [] \<and> w \<noteq> ''.'' \<and> slash \<notin> set w"
    by (simp add: wf_path_def)
  note start = join_no_slash_start [OF clean]
  note pj = path_parts_of_join [OF clean]
  have add: "path_parts_of (slash # s) = path_parts_of s" for s
    by (simp add: path_parts_of_def)
  consider "root p = ''''" "parts p = []" | "root p = ''''" "parts p \<noteq> []"
    | "root p = ''/''" | "root p = ''//''"
    using wf by (auto simp: wf_path_def)
  then show ?thesis
    by cases (simp_all add: path_str_def path_of_def startswith_root [OF start] pj add
        path_root_of_def [of "''.''"] startswith_def path_parts_of_def [of "''.''"])
qed

end
