(* ===== verification/SysIO.thy ===== *)
theory SysIO
  imports PyFloat PyPath
begin

text \<open>
  The outside of the package. Processes, files, clocks and the network are calls to an
  operating system that the development does not define: it is the parameter \<open>'w env\<close>, one
  function per kind of call, over a world of any type \<open>'w\<close>. Every call may change the world,
  so anything another process or thread does between two calls is covered.

  What the package does to that world, and what it logs, is recorded in the order in which it
  happens, in the field \<open>trace\<close>. Statements about the program's behaviour are statements about
  the trace.
\<close>

section \<open>What the package can do\<close>

datatype log_level = Debug | Info | Warn | Error | Exception

text \<open>The levels in the order of their severity; \<^verbatim>\<open>logger.exception\<close> logs an error with its traceback.\<close>

fun severity :: "log_level \<Rightarrow> nat" where
  "severity Debug = 10"
| "severity Info = 20"
| "severity Warn = 30"
| "severity Error = 40"
| "severity Exception = 41"

lemma severity_inject [simp]: "severity l = severity k \<longleftrightarrow> l = k"
  by (cases l; cases k) simp_all

instantiation log_level :: linorder
begin

definition less_eq_log_level :: "log_level \<Rightarrow> log_level \<Rightarrow> bool" where
  "less_eq_log_level l k \<longleftrightarrow> severity l \<le> severity k"

definition less_log_level :: "log_level \<Rightarrow> log_level \<Rightarrow> bool" where
  "less_log_level l k \<longleftrightarrow> severity l < severity k"

instance
  by standard (auto simp: less_eq_log_level_def less_log_level_def dest: antisym)

end

text \<open>An exit code, or the text that stands for one when a command timed out.\<close>

datatype rc_code = Rc int | Timeout

fun code_str :: "rc_code \<Rightarrow> string" where
  "code_str (Rc n) = str_of_int n"
| "code_str Timeout = ''timeout''"

text \<open>One constructor for each \<^verbatim>\<open>logger\<close> call of the package, with the values it formats.\<close>

datatype msg =
    MGitTimeout pyfloat
  | MNoLocks
  | MLeftLock string string string
  | MUnlinkFailed string string string
  | MRemovedLock string string
  | MStampFailed path
  | MHeartbeatFailed string string
  | MEventFailed string
  | MStampingFailed
  | MCycleFailed string rc_code string string
  | MStillDegraded string rc_code
  | MRecovered rc_code
  | MNoBranch
  | MRebaseFailed string string
  | MPushFailed int
  | MPushCycleFailed
  | MExtDisabled
  | MExtEnabled
  | MLockSweepFailed
  | MInvalidConfig string
  | MLoading "string list"

datatype effect =
    EGit "string list" "int option"
  | EUnlink path
  | EWrite path string
  | EHttp string pyfloat
  | EReadBody nat
  | EWriteOut string
  | EImport string
  | ELog log_level msg

text \<open>
  A git command is recorded when it has ended, with its exit code; \<open>None\<close> says that the call raised
  (a timeout, say).
\<close>

record 'w io =
  world :: 'w
  trace :: "effect list"

section \<open>The operating system\<close>

text \<open>
  \<^verbatim>\<open>x_http\<close> is a single GET request, with its timeout: a reply is a status and, for a redirect,
  where it points to.
\<close>

record http_reply =
  status :: int
  location :: "string option"

record 'w env =
  x_run :: "string list \<Rightarrow> 'w \<Rightarrow> (exn + int \<times> string \<times> string) \<times> 'w"
  x_monotonic :: "'w \<Rightarrow> pyfloat \<times> 'w"
  x_time :: "'w \<Rightarrow> pyfloat \<times> 'w"
  x_utcnow :: "'w \<Rightarrow> int \<times> 'w"
  x_is_dir :: "path \<Rightarrow> 'w \<Rightarrow> bool \<times> 'w"
  x_is_file :: "path \<Rightarrow> 'w \<Rightarrow> bool \<times> 'w"
  x_exists :: "path \<Rightarrow> 'w \<Rightarrow> bool \<times> 'w"
  x_listdir :: "path \<Rightarrow> 'w \<Rightarrow> (exn + string list) \<times> 'w"
  x_walk :: "path \<Rightarrow> 'w \<Rightarrow> string list list \<times> 'w"
  x_mtime :: "path \<Rightarrow> 'w \<Rightarrow> (exn + pyfloat) \<times> 'w"
  x_read :: "path \<Rightarrow> 'w \<Rightarrow> (exn + string) \<times> 'w"
  x_write :: "path \<Rightarrow> string \<Rightarrow> 'w \<Rightarrow> (exn + unit) \<times> 'w"
  x_unlink :: "path \<Rightarrow> 'w \<Rightarrow> (exn + unit) \<times> 'w"
  x_getpid :: "'w \<Rightarrow> nat \<times> 'w"
  x_http :: "string \<Rightarrow> pyfloat \<Rightarrow> 'w \<Rightarrow> (exn + http_reply) \<times> 'w"
  x_read_body :: "nat \<Rightarrow> 'w \<Rightarrow> (exn + unit) \<times> 'w"

text \<open>A call that cannot fail, and one that can.\<close>

definition sys :: "('w \<Rightarrow> 'r \<times> 'w) \<Rightarrow> (('w, 'z) io_scheme, 'r) prog" where
  "sys f s = (case f (world s) of (r, w) \<Rightarrow> (Inr r, s\<lparr>world := w\<rparr>))"

definition sys_try :: "('w \<Rightarrow> (exn + 'r) \<times> 'w) \<Rightarrow> (('w, 'z) io_scheme, 'r) prog" where
  "sys_try f s = (case f (world s) of (r, w) \<Rightarrow> (r, s\<lparr>world := w\<rparr>))"

definition emit :: "effect \<Rightarrow> (('w, 'z) io_scheme, unit) prog" where
  "emit e s = (Inr (), s\<lparr>trace := trace s @ [e]\<rparr>)"

abbreviation log :: "log_level \<Rightarrow> msg \<Rightarrow> (('w, 'z) io_scheme, unit) prog" where
  "log l m \<equiv> emit (ELog l m)"

lemma never_raises_sys [simp]: "never_raises (sys f)"
  by (simp add: never_raises_def sys_def split: prod.split)

lemma never_raises_emit [simp]: "never_raises (emit e)"
  by (simp add: never_raises_def emit_def)

text \<open>Calls and effects leave alone whatever does not look at the world or the trace.\<close>

lemma frames_sysI: "(\<And>s w. f (s\<lparr>world := w\<rparr>) = f s) \<Longrightarrow> frames f (sys g)"
  by (auto simp: frames_def sys_def split: prod.split)

lemma frames_sys_tryI: "(\<And>s w. f (s\<lparr>world := w\<rparr>) = f s) \<Longrightarrow> frames f (sys_try g)"
  by (auto simp: frames_def sys_try_def split: prod.split)

lemma frames_emitI: "(\<And>s t. f (s\<lparr>trace := t\<rparr>) = f s) \<Longrightarrow> frames f (emit e)"
  by (simp add: frames_def emit_def)

text \<open>\<^verbatim>\<open>subprocess.run(argv, capture_output=True, text=True, check=False)\<close>\<close>

definition run_process :: "'w env \<Rightarrow> string list \<Rightarrow> (('w, 'z) io_scheme, int \<times> string \<times> string) prog" where
  "run_process env argv s =
     (case x_run env argv (world s) of (r, w) \<Rightarrow>
        (r, s\<lparr>world := w,
              trace := trace s @ [EGit argv (case r of Inl e \<Rightarrow> None | Inr (code, _) \<Rightarrow> Some code)]\<rparr>))"

text \<open>
  \<^verbatim>\<open>path.read_text(encoding="utf-8")\<close>: the decoded content, with every \<^verbatim>\<open>CR LF\<close> and lone \<^verbatim>\<open>CR\<close>
  read as a newline.
\<close>

abbreviation carriage_return :: char where
  "carriage_return \<equiv> CHR 0x0D"

fun newlines_from :: "bool \<Rightarrow> string \<Rightarrow> string" where
  "newlines_from after_cr [] = []"
| "newlines_from after_cr (c # s) =
     (if c = carriage_return then newline # newlines_from True s
      else if after_cr \<and> c = newline then newlines_from False s
      else c # newlines_from False s)"

definition universal_newlines :: "string \<Rightarrow> string" where
  "universal_newlines s = newlines_from False s"

definition read_text :: "'w env \<Rightarrow> path \<Rightarrow> (('w, 'z) io_scheme, string) prog" where
  "read_text env p = seq (sys_try (x_read env p)) (\<lambda>t. ret (universal_newlines t))"

lemma newlines_no_cr: "carriage_return \<notin> set (newlines_from b s)"
  by (induction b s rule: newlines_from.induct) auto

lemma universal_newlines_id: "carriage_return \<notin> set s \<Longrightarrow> universal_newlines s = s"
proof -
  have "carriage_return \<notin> set s \<Longrightarrow> newlines_from False s = s" by (induction s) auto
  then show "carriage_return \<notin> set s \<Longrightarrow> universal_newlines s = s"
    by (simp add: universal_newlines_def)
qed

lemma universal_newlines_idem [simp]:
  "universal_newlines (universal_newlines s) = universal_newlines s"
  by (rule universal_newlines_id) (simp add: universal_newlines_def newlines_no_cr)

section \<open>The trace only grows\<close>

text \<open>
  \<open>grows P m\<close>: a run of \<open>m\<close> only appends to the trace, and everything it appends satisfies
  \<open>P\<close>. This is how "the program never does X" is stated and proved, one operation at a time.
\<close>

definition grows :: "(effect \<Rightarrow> bool) \<Rightarrow> (('w, 'z) io_scheme, 'a) prog \<Rightarrow> bool" where
  "grows P m \<longleftrightarrow> (\<forall>s. \<exists>es. trace (snd (m s)) = trace s @ es \<and> list_all P es)"

named_theorems grow_intros \<open>composition rules for the growth of the trace\<close>

lemma growsI:
  "(\<And>s. \<exists>es. trace (snd (m s)) = trace s @ es \<and> list_all P es) \<Longrightarrow> grows P m"
  by (simp add: grows_def)

lemma growsE:
  assumes "grows P m"
  obtains es where "trace (snd (m s)) = trace s @ es" "list_all P es"
  using assms unfolding grows_def by blast

lemma grows_mono: "grows P m \<Longrightarrow> (\<And>e. P e \<Longrightarrow> Q e) \<Longrightarrow> grows Q m"
  unfolding grows_def by (metis list.pred_mono_strong)

lemma grows_ret [grow_intros]: "grows P (ret x)"
  by (simp add: grows_def ret_def)

lemma grows_throw [grow_intros]: "grows P (throw e)"
  by (simp add: grows_def throw_def)

lemma grows_of_sum [grow_intros]: "grows P (of_sum r)"
  by (simp add: grows_def)

lemma grows_gets [grow_intros]: "grows P (gets f)"
  by (simp add: grows_def gets_def)

lemma grows_modify [grow_intros]: "(\<And>s. trace (f s) = trace s) \<Longrightarrow> grows P (modify f)"
  by (simp add: grows_def modify_def)

lemma grows_sys [grow_intros]: "grows P (sys f)"
  by (simp add: grows_def sys_def split: prod.split)

lemma grows_sys_try [grow_intros]: "grows P (sys_try f)"
  by (simp add: grows_def sys_try_def split: prod.split)

lemma grows_emit [grow_intros]: "P e \<Longrightarrow> grows P (emit e)"
  by (simp add: grows_def emit_def)

lemma grows_seq [grow_intros]:
  assumes "grows P m" and "\<And>x. grows P (f x)"
  shows "grows P (seq m f)"
proof (rule growsI)
  fix s
  obtain es where es: "trace (snd (m s)) = trace s @ es" "list_all P es"
    using assms(1) by (rule growsE)
  show "\<exists>es. trace (snd (seq m f s)) = trace s @ es \<and> list_all P es"
  proof (cases "m s")
    case (Pair r s')
    show ?thesis
    proof (cases r)
      case (Inl e)
      with Pair es show ?thesis by (simp add: seq_def)
    next
      case (Inr x)
      obtain es' where "trace (snd (f x s')) = trace s' @ es'" "list_all P es'"
        using assms(2) by (rule growsE)
      with Pair Inr es show ?thesis by (intro exI [of _ "es @ es'"]) (simp add: seq_def)
    qed
  qed
qed

lemma grows_read_text [grow_intros]: "grows P (read_text env p)"
  unfolding read_text_def by (intro grows_seq grows_sys_try grows_ret)

lemma grows_andthen [grow_intros]: "grows P m \<Longrightarrow> grows P m' \<Longrightarrow> grows P (andthen m m')"
  by (simp add: andthen_def grows_seq)

lemma grows_attempt [grow_intros]:
  assumes "grows P m" and "\<And>e m'. h e = Some m' \<Longrightarrow> grows P m'"
  shows "grows P (attempt m h)"
proof (rule growsI)
  fix s
  obtain es where es: "trace (snd (m s)) = trace s @ es" "list_all P es"
    using assms(1) by (rule growsE)
  obtain r s' where run: "m s = (r, s')" by (cases "m s")
  show "\<exists>es. trace (snd (attempt m h s)) = trace s @ es \<and> list_all P es"
  proof (cases "\<exists>e m'. r = Inl e \<and> h e = Some m'")
    case True
    then obtain e m' where e: "r = Inl e" "h e = Some m'" by blast
    obtain es' where "trace (snd (m' s')) = trace s' @ es'" "list_all P es'"
      using assms(2) [OF e(2)] by (rule growsE)
    with run e es show ?thesis by (intro exI [of _ "es @ es'"]) (simp add: attempt_def)
  next
    case False
    with run es show ?thesis
      by (cases r) (auto simp: attempt_def split: option.split)
  qed
qed

lemma grows_if [grow_intros]: "grows P m \<Longrightarrow> grows P m' \<Longrightarrow> grows P (if b then m else m')"
  by simp

text \<open>With what is known of the value that the first part returns.\<close>

lemma grows_seq_yields:
  assumes "grows P m" and "yields m Q" and "\<And>x. Q x \<Longrightarrow> grows P (f x)"
  shows "grows P (seq m f)"
proof -
  have "seq m f = seq m (\<lambda>x. if Q x then f x else ret undefined)"
  proof (rule ext)
    fix s show "seq m f s = seq m (\<lambda>x. if Q x then f x else ret undefined) s"
      using assms(2) by (cases "m s") (auto simp: seq_def yields_def split: sum.split)
  qed
  moreover have "grows P (seq m (\<lambda>x. if Q x then f x else ret undefined))"
    using assms(3) by (intro grows_seq assms(1)) (simp add: grows_ret)
  ultimately show ?thesis by simp
qed

lemma yields_read_text:
  "yields (read_text env p) (\<lambda>t. \<exists>w raw w'. x_read env p w = (Inr raw, w') \<and> t = universal_newlines raw)"
  by (auto simp: yields_def read_text_def seq_eq_Inr sys_try_def split: prod.splits)

lemma grows_foreach [grow_intros]:
  "(\<And>x. x \<in> set xs \<Longrightarrow> grows P (f x)) \<Longrightarrow> grows P (foreach xs f)"
  by (induction xs) (auto intro: grow_intros)

lemma grows_collect [grow_intros]: "(\<And>x. grows P (f x)) \<Longrightarrow> grows P (collect xs f)"
  by (induction xs) (auto intro: grow_intros)

section \<open>What a run added\<close>

definition new_effects :: "('w, 'z) io_scheme \<Rightarrow> ('w, 'z) io_scheme \<Rightarrow> effect list" where
  "new_effects s s' = drop (length (trace s)) (trace s')"

lemma new_effects_eq: "trace s' = trace s @ es \<Longrightarrow> new_effects s s' = es"
  by (simp add: new_effects_def)

lemma grows_new:
  assumes "grows P m" and "m s = (r, s')"
  shows "trace s' = trace s @ new_effects s s'" and "list_all P (new_effects s s')"
proof -
  obtain es where "trace (snd (m s)) = trace s @ es" "list_all P es"
    using assms(1) by (rule growsE)
  with assms(2) show "trace s' = trace s @ new_effects s s'" and "list_all P (new_effects s s')"
    by (simp_all add: new_effects_def)
qed

lemma grows_newD: "grows P m \<Longrightarrow> m s = (r, s') \<Longrightarrow> e \<in> set (new_effects s s') \<Longrightarrow> P e"
  using grows_new(2) by (fastforce simp: list_all_iff)

text \<open>Two runs in sequence.\<close>

lemma new_effects_trans:
  assumes "trace s1 = trace s @ es" and "trace s2 = trace s1 @ es'"
  shows "new_effects s s2 = es @ es'"
  using assms by (simp add: new_effects_def)

end
