(* ===== verification/GitOps.thy ===== *)
theory GitOps
  imports SysIO
begin

text \<open>
  \<^verbatim>\<open>git_ops.py\<close>: the only door to the \<^verbatim>\<open>git\<close> binary, one process per operation. \<^verbatim>\<open>git\<close> itself is
  the function \<open>x_run\<close> of the environment: it gets the argument vector and returns an exit code
  with the two outputs, or raises (a timeout, a missing binary, undecodable output).
\<close>

section \<open>State\<close>

record git_result =
  rc :: int
  stdout :: string
  stderr :: string

definition ok :: "git_result \<Rightarrow> bool" where
  "ok r = (rc r = 0)"

text \<open>The fields of a \<^verbatim>\<open>GitOps\<close> object that never change, and the one that does.\<close>

record git_conf =
  vault :: path
  timeout :: pyfloat
  git_author_name :: "string option"
  git_author_email :: "string option"
  credential_helper :: "string option"

definition DEFAULT_TIMEOUT :: pyfloat where
  "DEFAULT_TIMEOUT = Fin 120"

record 'w git_st = "'w io" +
  git_dir_cache :: "path option"

section \<open>Operations\<close>

definition git_argv :: "git_conf \<Rightarrow> string list \<Rightarrow> string list" where
  "git_argv g args = [''git'', ''-C'', path_str (vault g)] @ args"

definition run_git :: "'w env \<Rightarrow> git_conf \<Rightarrow> string list \<Rightarrow> (('w, 'z) io_scheme, git_result) prog" where
  "run_git env g args =
     seq (attempt (run_process env (git_argv g args))
           (except_timeout
              (andthen (log Warn (MGitTimeout (timeout g))) (throw TimeoutExpired))))
       (\<lambda>(code, out, err). ret \<lparr>rc = code, stdout = out, stderr = err\<rparr>)"

definition identity_args :: "git_conf \<Rightarrow> string list" where
  "identity_args g =
     (if is_set (git_author_name g) then [''-c'', ''user.name='' @ the (git_author_name g)] else [])
   @ (if is_set (git_author_email g) then [''-c'', ''user.email='' @ the (git_author_email g)] else [])"

definition credential_args :: "git_conf \<Rightarrow> string list" where
  "credential_args g =
     (if \<not> is_set (credential_helper g) then []
      else [''-c'', ''credential.helper='', ''-c'', ''credential.helper='' @ the (credential_helper g)])"

definition add :: "'w env \<Rightarrow> git_conf \<Rightarrow> string list \<Rightarrow> (('w, 'z) io_scheme, git_result) prog" where
  "add env g ps = run_git env g ([''add'', ''-A'', ''--''] @ ps)"

definition add_all :: "'w env \<Rightarrow> git_conf \<Rightarrow> (('w, 'z) io_scheme, git_result) prog" where
  "add_all env g = run_git env g [''add'', ''-A'']"

definition git_dir :: "'w env \<Rightarrow> git_conf \<Rightarrow> (('w, 'z) git_st_scheme, path) prog" where
  "git_dir env g =
     seq (gets git_dir_cache) (\<lambda>c. case c of
       Some d \<Rightarrow> ret d
     | None \<Rightarrow>
         let dot_git = joinpath (vault g) ''.git'' in
         andthen (modify (\<lambda>s. s\<lparr>git_dir_cache := Some dot_git\<rparr>))
           (seq (sys (x_is_dir env dot_git)) (\<lambda>d.
              if d then ret dot_git
              else seq (run_git env g [''rev-parse'', ''--absolute-git-dir'']) (\<lambda>result.
                let out = strip (stdout result) in
                if ok result \<and> out \<noteq> []
                then andthen (modify (\<lambda>s. s\<lparr>git_dir_cache := Some (path_of out)\<rparr>)) (ret (path_of out))
                else ret dot_git))))"

definition has_staged :: "'w env \<Rightarrow> git_conf \<Rightarrow> (('w, 'z) io_scheme, bool) prog" where
  "has_staged env g =
     seq (run_git env g [''diff'', ''--cached'', ''--quiet'']) (\<lambda>r. ret (\<not> ok r))"

definition is_dirty :: "'w env \<Rightarrow> git_conf \<Rightarrow> (('w, 'z) io_scheme, bool) prog" where
  "is_dirty env g =
     seq (run_git env g [''status'', ''--porcelain'']) (\<lambda>r. ret (strip (stdout r) \<noteq> []))"

definition commit :: "'w env \<Rightarrow> git_conf \<Rightarrow> string \<Rightarrow> (('w, 'z) io_scheme, git_result) prog" where
  "commit env g message =
     seq (has_staged env g) (\<lambda>staged.
       if \<not> staged then ret \<lparr>rc = 0, stdout = '''', stderr = ''nothing staged''\<rparr>
       else run_git env g (identity_args g @ [''commit'', ''-m'', message]))"

definition fetch :: "'w env \<Rightarrow> git_conf \<Rightarrow> string \<Rightarrow> (('w, 'z) io_scheme, git_result) prog" where
  "fetch env g remote = run_git env g (credential_args g @ [''fetch'', remote])"

definition rebase_theirs ::
  "'w env \<Rightarrow> git_conf \<Rightarrow> string \<Rightarrow> string \<Rightarrow> (('w, 'z) io_scheme, git_result) prog" where
  "rebase_theirs env g remote branch =
     run_git env g [''rebase'', ''-X'', ''theirs'', remote @ ''/'' @ branch]"

definition rebase_abort :: "'w env \<Rightarrow> git_conf \<Rightarrow> (('w, 'z) io_scheme, git_result) prog" where
  "rebase_abort env g = run_git env g [''rebase'', ''--abort'']"

definition push ::
  "'w env \<Rightarrow> git_conf \<Rightarrow> string \<Rightarrow> string \<Rightarrow> (('w, 'z) io_scheme, git_result) prog" where
  "push env g remote branch = run_git env g (credential_args g @ [''push'', remote, branch])"

definition current_branch :: "'w env \<Rightarrow> git_conf \<Rightarrow> (('w, 'z) io_scheme, string option) prog" where
  "current_branch env g =
     seq (run_git env g [''rev-parse'', ''--abbrev-ref'', ''HEAD'']) (\<lambda>result.
       if \<not> ok result then ret None
       else let name = strip (stdout result) in ret (if name \<noteq> [] then Some name else None))"

definition remote_exists :: "'w env \<Rightarrow> git_conf \<Rightarrow> string \<Rightarrow> (('w, 'z) io_scheme, bool) prog" where
  "remote_exists env g remote =
     seq (run_git env g [''remote'', ''get-url'', remote]) (\<lambda>r. ret (ok r))"

lemmas git_op_defs =
  add_def add_all_def git_dir_def has_staged_def is_dirty_def commit_def fetch_def
  rebase_theirs_def rebase_abort_def push_def current_branch_def remote_exists_def

section \<open>How one command runs\<close>

lemma run_git_eq:
  "run_git env g args s =
     (case x_run env (git_argv g args) (world s) of
        (Inl e, w) \<Rightarrow>
          (Inl e, s\<lparr>world := w, trace := trace s @ EGit (git_argv g args) None #
             (if e = TimeoutExpired then [ELog Warn (MGitTimeout (timeout g))] else [])\<rparr>)
      | (Inr (code, out, err), w) \<Rightarrow>
          (Inr \<lparr>rc = code, stdout = out, stderr = err\<rparr>,
           s\<lparr>world := w, trace := trace s @ [EGit (git_argv g args) (Some code)]\<rparr>))"
  by (auto simp: run_git_def andthen_def seq_def emit_def attempt_def run_process_def
      except_timeout_def throw_def ret_def Let_def split: prod.split sum.split)

text \<open>
  Everything an operation of this module leaves in the trace is a command on the vault or the
  warning that a command timed out.
\<close>

definition git_effect :: "git_conf \<Rightarrow> effect \<Rightarrow> bool" where
  "git_effect g e \<longleftrightarrow> (\<exists>args r. e = EGit (git_argv g args) r) \<or> e = ELog Warn (MGitTimeout (timeout g))"

lemma git_effect_cmd [simp]: "git_effect g (EGit (git_argv g args) r)"
  by (auto simp: git_effect_def)

lemma git_effect_timeout [simp]: "git_effect g (ELog Warn (MGitTimeout (timeout g)))"
  by (simp add: git_effect_def)

lemma grows_run_git [grow_intros]: "grows (git_effect g) (run_git env g args)"
  by (auto simp: grows_def run_git_eq Let_def split: prod.split sum.split)

lemma grows_run_gitI:
  assumes "\<And>r. P (EGit (git_argv g args) r)" and "P (ELog Warn (MGitTimeout (timeout g)))"
  shows "grows P (run_git env g args)"
  using assms by (auto simp: grows_def run_git_eq Let_def split: prod.split sum.split)

lemma frames_run_git:
  assumes "\<And>s w t. f (s\<lparr>world := w, trace := t\<rparr>) = f s"
  shows "frames f (run_git env g args)"
proof -
  have "f (s\<lparr>trace := t, world := w\<rparr>) = f s" for s w t
  proof -
    have "s\<lparr>trace := t, world := w\<rparr> = s\<lparr>world := w, trace := t\<rparr>" by (cases s) simp
    then show ?thesis by (simp only: assms)
  qed
  then show ?thesis
    using assms by (auto simp: frames_def run_git_eq Let_def split: prod.split sum.split)
qed

section \<open>The operations as a contract\<close>

text \<open>
  What a client may rely on, for every operation of this module: it touches nothing of the
  client's own state (the \<open>more\<close> part of the record), and all it leaves behind are git effects.
\<close>

locale git_op =
  fixes g :: git_conf
    and oper :: "(('w, 'z) git_st_scheme, 'a) prog"
  assumes client_frame: "frames git_st.more oper"
    and git_only: "grows (git_effect g) oper"
begin

lemma client_state: "oper s = (r, s') \<Longrightarrow> git_st.more s' = git_st.more s"
  by (rule framesD [OF client_frame])

lemma then_log:
  assumes "\<And>x. grows P (k x)" and "\<And>e. git_effect g e \<Longrightarrow> P e"
  shows "grows P (seq oper k)"
  using assms grows_mono [OF git_only] by (blast intro: grows_seq)

end

lemma frames_more_run_git [frame_intros]: "frames git_st.more (run_git env g args)"
  by (rule frames_run_git) simp

lemma frames_more_modify [frame_intros]:
  "frames git_st.more (modify (\<lambda>s. s\<lparr>git_dir_cache := c\<rparr>))"
  by (simp add: frames_def modify_def)

lemma frames_more_sys [frame_intros]: "frames git_st.more (sys f)"
  by (simp add: frames_def sys_def split: prod.split)

lemma frames_more_emit [frame_intros]: "frames git_st.more (emit e)"
  by (simp add: frames_def emit_def)

lemma grows_cache [grow_intros]: "grows P (modify (\<lambda>s. s\<lparr>git_dir_cache := c\<rparr>))"
  by (rule grows_modify) simp

lemma git_dir_frame: "frames git_st.more (git_dir env g)"
  unfolding git_dir_def Let_def
  by (intro frame_intros) (auto split: option.split intro!: frame_intros)

lemma git_dir_grows: "grows (git_effect g) (git_dir env g)"
  unfolding git_dir_def Let_def
  by (intro grow_intros) (auto split: option.split intro!: grow_intros)

interpretation door_add: git_op g "add env g ps" for g env ps
  by unfold_locales (simp_all add: add_def frame_intros grow_intros)

interpretation door_add_all: git_op g "add_all env g" for g env
  by unfold_locales (simp_all add: add_all_def frame_intros grow_intros)

interpretation door_git_dir: git_op g "git_dir env g" for g env
  by unfold_locales (rule git_dir_frame git_dir_grows)+

interpretation door_has_staged: git_op g "has_staged env g" for g env
  by unfold_locales (auto simp: has_staged_def intro!: frame_intros grow_intros)

interpretation door_is_dirty: git_op g "is_dirty env g" for g env
  by unfold_locales (auto simp: is_dirty_def intro!: frame_intros grow_intros)

interpretation door_commit: git_op g "commit env g message" for g env message
  by unfold_locales
     (auto simp: commit_def intro!: frame_intros grow_intros
       door_has_staged.client_frame door_has_staged.git_only)

interpretation door_fetch: git_op g "fetch env g remote" for g env remote
  by unfold_locales (simp_all add: fetch_def frame_intros grow_intros)

interpretation door_rebase: git_op g "rebase_theirs env g remote branch" for g env remote branch
  by unfold_locales (simp_all add: rebase_theirs_def frame_intros grow_intros)

interpretation door_abort: git_op g "rebase_abort env g" for g env
  by unfold_locales (simp_all add: rebase_abort_def frame_intros grow_intros)

interpretation door_push: git_op g "push env g remote branch" for g env remote branch
  by unfold_locales (simp_all add: push_def frame_intros grow_intros)

interpretation door_branch: git_op g "current_branch env g" for g env
  by unfold_locales (auto simp: current_branch_def Let_def intro!: frame_intros grow_intros)

interpretation door_remote_exists: git_op g "remote_exists env g remote" for g env remote
  by unfold_locales (auto simp: remote_exists_def intro!: frame_intros grow_intros)

section \<open>Property\<close>

definition is_command :: "effect \<Rightarrow> bool" where
  "is_command e \<longleftrightarrow> (case e of EGit argv r \<Rightarrow> True | _ \<Rightarrow> False)"

text \<open>
  The git directory is asked for at most once. However the first question ends, even with an exception, it runs
  at most one command, and none if the vault has a \<^verbatim>\<open>.git\<close> directory; afterwards the answer is
  known, every later question returns it, the same one as the first if that returned, and does nothing.
\<close>

theorem git_dir_is_cached:
  assumes "git_dir env g s = (r, s')"
  shows "\<exists>d. git_dir env g s' = (Inr d, s') \<and> (case r of Inl e \<Rightarrow> d = joinpath (vault g) ''.git'' | Inr x \<Rightarrow> x = d) \<and>
    length (filter is_command (new_effects s s')) \<le> 1 \<and>
    (fst (x_is_dir env (joinpath (vault g) ''.git'') (world s)) \<longrightarrow> new_effects s s' = [])"
proof (cases "git_dir_cache s")
  case (Some d)
  with assms show ?thesis by (auto simp: git_dir_def seq_def gets_def ret_def new_effects_def)
next
  case None
  obtain b w where b: "x_is_dir env (joinpath (vault g) ''.git'') (world s) = (b, w)"
    by (cases "x_is_dir env (joinpath (vault g) ''.git'') (world s)")
  show ?thesis
  proof (cases b)
    case True
    with assms None b show ?thesis
      by (auto simp: git_dir_def seq_def gets_def ret_def andthen_def modify_def sys_def new_effects_def Let_def)
  next
    case False
    let ?s1 = "s\<lparr>git_dir_cache := Some (joinpath (vault g) ''.git''), world := w\<rparr>"
    obtain q s2 where q: "run_git env g [''rev-parse'', ''--absolute-git-dir''] ?s1 = (q, s2)"
      by (cases "run_git env g [''rev-parse'', ''--absolute-git-dir''] ?s1")
    have c: "git_dir_cache s2 = Some (joinpath (vault g) ''.git'')"
      "length (filter is_command (new_effects s s2)) \<le> 1"
      using q by (auto simp: run_git_eq new_effects_def is_command_def split: prod.splits sum.splits if_splits)
    from assms None b False q have "case q of Inl e \<Rightarrow> r = Inl e \<and> s' = s2
      | Inr x \<Rightarrow> (if ok x \<and> strip (stdout x) \<noteq> []
           then r = Inr (path_of (strip (stdout x))) \<and> s' = s2\<lparr>git_dir_cache := Some (path_of (strip (stdout x)))\<rparr>
           else r = Inr (joinpath (vault g) ''.git'') \<and> s' = s2)"
      by (auto simp: git_dir_def seq_def gets_def ret_def andthen_def modify_def sys_def Let_def split: sum.splits)
    with c b False show ?thesis
      by (cases q) (auto simp: git_dir_def seq_def gets_def ret_def new_effects_def split: if_splits)
  qed
qed

end
