(* ===== verification/Scripted.thy ===== *)
theory Scripted
  imports SysIO
begin

text \<open>
  One concrete operating system, for the examples that show the theorems at work: files with
  their contents and times, directory listings, clocks that stand still, and the outcomes of the
  processes that will be run, in order. No theorem about the package depends on it.
\<close>

record script =
  sc_runs :: "(exn + int \<times> string \<times> string) list"
  sc_mono :: pyfloat
  sc_time :: pyfloat
  sc_utc :: int
  sc_files :: "(path \<times> string \<times> pyfloat) list"
  sc_dirs :: "(path \<times> string list) list"
  sc_trees :: "(path \<times> string list list) list"
  sc_http :: "http_reply list"

definition script0 :: script where
  "script0 = \<lparr>sc_runs = [], sc_mono = Fin 0, sc_time = Fin 0, sc_utc = 0, sc_files = [],
              sc_dirs = [], sc_trees = [], sc_http = []\<rparr>"

fun sc_run :: "string list \<Rightarrow> script \<Rightarrow> (exn + int \<times> string \<times> string) \<times> script" where
  "sc_run argv w =
     (case sc_runs w of
        [] \<Rightarrow> (Inr (0, '''', ''''), w)
      | r # rs \<Rightarrow> (r, w\<lparr>sc_runs := rs\<rparr>))"

definition not_found :: exn where
  "not_found = OSError ''FileNotFoundError''"

definition script_env :: "script env" where
  "script_env =
     \<lparr>x_run = sc_run,
      x_monotonic = (\<lambda>w. (sc_mono w, w)),
      x_time = (\<lambda>w. (sc_time w, w)),
      x_utcnow = (\<lambda>w. (sc_utc w, w)),
      x_is_dir = (\<lambda>p w. (map_of (sc_dirs w) p \<noteq> None, w)),
      x_is_file = (\<lambda>p w. (map_of (sc_files w) p \<noteq> None, w)),
      x_exists = (\<lambda>p w. (map_of (sc_dirs w) p \<noteq> None \<or> map_of (sc_files w) p \<noteq> None, w)),
      x_listdir = (\<lambda>p w. (case map_of (sc_dirs w) p of None \<Rightarrow> Inl not_found | Some ns \<Rightarrow> Inr ns, w)),
      x_walk = (\<lambda>p w. (case map_of (sc_trees w) p of None \<Rightarrow> [] | Some t \<Rightarrow> t, w)),
      x_mtime = (\<lambda>p w. (case map_of (sc_files w) p of None \<Rightarrow> Inl not_found | Some (t, m) \<Rightarrow> Inr m, w)),
      x_read = (\<lambda>p w. (case map_of (sc_files w) p of None \<Rightarrow> Inl not_found | Some (t, m) \<Rightarrow> Inr t, w)),
      x_write = (\<lambda>p t w. (Inr (), w\<lparr>sc_files := (p, t, sc_time w) # sc_files w\<rparr>)),
      x_unlink = (\<lambda>p w. (case map_of (sc_files w) p of
         None \<Rightarrow> (Inl not_found, w)
       | Some _ \<Rightarrow> (Inr (), w\<lparr>sc_files := filter (\<lambda>(q, _). q \<noteq> p) (sc_files w)\<rparr>))),
      x_getpid = (\<lambda>w. (7, w)),
      x_http = (\<lambda>u t w. (case sc_http w of
         [] \<Rightarrow> (Inl (OSError ''URLError''), w)
       | r # rs \<Rightarrow> (Inr r, w\<lparr>sc_http := rs\<rparr>))),
      x_read_body = (\<lambda>n w. (Inr (), w))\<rparr>"

lemma script_env_simps [simp]:
  "x_run script_env = sc_run"
  "x_monotonic script_env w = (sc_mono w, w)"
  "x_time script_env w = (sc_time w, w)"
  "x_utcnow script_env w = (sc_utc w, w)"
  "x_getpid script_env w = (7, w)"
  by (simp_all add: script_env_def)

end
