(* ===== verification/Locks.thy ===== *)
theory Locks
  imports GitOps Scripted
begin

text \<open>
  \<^verbatim>\<open>locks.py\<close>: finding the lock files of the repository, deciding which of them are stale, the
  sweep that removes the stale ones at startup, and the description of the present ones that
  the worker puts in its failure warnings.
\<close>

section \<open>Discovery\<close>

record lock =
  lk_path :: path
  lk_name :: string
  lk_age :: pyfloat

text \<open>\<^verbatim>\<open>2 * DEFAULT_TIMEOUT\<close>\<close>

definition STALE_AFTER :: pyfloat where
  "STALE_AFTER = (case DEFAULT_TIMEOUT of Fin q \<Rightarrow> double_of_rat (2 * q) | x \<Rightarrow> x)"

definition PROC_ROOT :: path where
  "PROC_ROOT = path_of ''/proc''"

definition except_os :: "('s, 'a) prog \<Rightarrow> exn \<Rightarrow> ('s, 'a) prog option" where
  "except_os m e = (case e of OSError c \<Rightarrow> Some m | _ \<Rightarrow> None)"

definition lock_file :: "string \<Rightarrow> bool" where
  "lock_file name = endswith name ''.lock''"

text \<open>
  \<^verbatim>\<open>gitdir.glob("*.lock")\<close> and \<^verbatim>\<open>(gitdir / "refs").rglob("*.lock")\<close>: the entries of one directory, and
  everything below another. \<^verbatim>\<open>glob\<close> finds nothing in a directory that cannot be listed.
\<close>

definition glob_locks :: "'w env \<Rightarrow> path \<Rightarrow> (('w, 'z) io_scheme, path list) prog" where
  "glob_locks env d =
     seq (attempt (sys_try (x_listdir env d)) (except_os (ret [])))
       (\<lambda>names. ret (map (\<lambda>n. descend d [n]) (filter lock_file names)))"

definition rglob_locks :: "'w env \<Rightarrow> path \<Rightarrow> (('w, 'z) io_scheme, path list) prog" where
  "rglob_locks env d =
     seq (sys (x_walk env d))
       (\<lambda>below. ret (map (descend d) (filter (\<lambda>ws. ws \<noteq> [] \<and> lock_file (last ws)) below)))"

fun stat_locks ::
  "'w env \<Rightarrow> path \<Rightarrow> pyfloat \<Rightarrow> path list \<Rightarrow> (('w, 'z) io_scheme, lock list) prog" where
  "stat_locks env gitdir now [] = ret []"
| "stat_locks env gitdir now (p # ps) =
     seq (attempt (seq (sys_try (x_mtime env p)) (\<lambda>m. ret (Some m))) (except_os (ret None)))
       (\<lambda>m. case m of
          None \<Rightarrow> stat_locks env gitdir now ps
        | Some mtime \<Rightarrow>
            seq (stat_locks env gitdir now ps) (\<lambda>ls.
              ret (\<lparr>lk_path = p, lk_name = relative_posix p gitdir, lk_age = f_sub now mtime\<rparr> # ls)))"

definition find_locks :: "'w env \<Rightarrow> path \<Rightarrow> (('w, 'z) io_scheme, lock list) prog" where
  "find_locks env gitdir =
     seq (sys (x_time env)) (\<lambda>now.
     seq (glob_locks env gitdir) (\<lambda>top.
     seq (rglob_locks env (descend gitdir [''refs''])) (\<lambda>refs.
     stat_locks env gitdir now (sort_key path_key (top @ refs)))))"

section \<open>Is git running?\<close>

text \<open>\<^verbatim>\<open>str.isdigit\<close>, which also takes the three superscript digits.\<close>

definition py_isdigit :: "string \<Rightarrow> bool" where
  "py_isdigit s = (s \<noteq> [] \<and>
     list_all (\<lambda>c. is_digit c \<or> code_point c \<in> {178, 179, 185}) s)"

fun scan_comm :: "'w env \<Rightarrow> string list \<Rightarrow> (('w, 'z) io_scheme, bool) prog" where
  "scan_comm env [] = ret False"
| "scan_comm env (pid # pids) =
     seq (attempt (seq (read_text env (descend PROC_ROOT [pid, ''comm'']))
                     (\<lambda>text. ret (strip text = ''git'')))
            (except_os (ret False)))
       (\<lambda>is_git. if is_git then ret True else scan_comm env pids)"

definition git_running :: "'w env \<Rightarrow> (('w, 'z) io_scheme, bool option) prog" where
  "git_running env =
     seq (sys (x_getpid env)) (\<lambda>own.
     seq (attempt (seq (sys_try (x_listdir env PROC_ROOT))
                     (\<lambda>names. ret (Some (filter (\<lambda>n. py_isdigit n \<and> n \<noteq> str_of_nat own) names))))
            (except_os (ret None)))
       (\<lambda>pids. case pids of
          None \<Rightarrow> ret None
        | Some [] \<Rightarrow> ret None
        | Some (p # ps) \<Rightarrow> seq (scan_comm env (p # ps)) (\<lambda>b. ret (Some b))))"

section \<open>The decision\<close>

definition stale_reason :: "lock \<Rightarrow> bool option \<Rightarrow> string option" where
  "stale_reason l running =
     (case running of
        None \<Rightarrow> Some ''cannot inspect processes''
      | Some True \<Rightarrow> Some ''git process running''
      | Some False \<Rightarrow>
          if f_lt (lk_age l) STALE_AFTER
          then Some (''younger than '' @
            (case STALE_AFTER of Fin q \<Rightarrow> str_of_int (round_half_even q) | _ \<Rightarrow> ''inf'') @ ''s'')
          else None)"

text \<open>\<^verbatim>\<open>format_age\<close> raises what \<^verbatim>\<open>int(seconds)\<close> raises, for an age that is not finite.\<close>

definition age_text :: "nat \<Rightarrow> string" where
  "age_text s =
     (let days = s div 86400; s1 = s mod 86400;
          hours = s1 div 3600; s2 = s1 mod 3600;
          minutes = s2 div 60; s3 = s2 mod 60;
          ps = map (\<lambda>(v, u). str_of_nat v @ [u])
                 (filter (\<lambda>(v, u). v \<noteq> 0) [(days, CHR ''d''), (hours, CHR ''h''), (minutes, CHR ''m'')])
      in if ps \<noteq> [] then join '' '' ps else str_of_nat s3 @ ''s'')"

definition format_age :: "pyfloat \<Rightarrow> exn + string" where
  "format_age seconds =
     (case int_of_float seconds of
        Inl e \<Rightarrow> Inl e
      | Inr i \<Rightarrow> Inr (age_text (nat (max 0 i))))"

section \<open>The sweep\<close>

definition sweep_lock :: "'w env \<Rightarrow> bool option \<Rightarrow> lock \<Rightarrow> (('w, 'z) io_scheme, unit) prog" where
  "sweep_lock env running l =
     (let reason = stale_reason l running in
      seq (of_sum (format_age (lk_age l))) (\<lambda>age.
        case reason of
          Some why \<Rightarrow> log Warn (MLeftLock (lk_name l) age why)
        | None \<Rightarrow>
            seq (attempt
                   (andthen (emit (EUnlink (lk_path l)))
                     (seq (sys_try (x_unlink env (lk_path l))) (\<lambda>_. ret None)))
                   (\<lambda>e. case e of OSError c \<Rightarrow> Some (ret (Some e)) | _ \<Rightarrow> None))
              (\<lambda>failed. case failed of
                 Some e \<Rightarrow> log Warn (MUnlinkFailed (lk_name l) age (exn_name e))
               | None \<Rightarrow> log Warn (MRemovedLock (lk_name l) age))))"

definition sweep :: "'w env \<Rightarrow> path \<Rightarrow> (('w, 'z) io_scheme, unit) prog" where
  "sweep env gitdir =
     seq (find_locks env gitdir) (\<lambda>locks.
       if locks = [] then log Debug MNoLocks
       else seq (git_running env) (\<lambda>running. foreach locks (sweep_lock env running)))"

fun describe_all :: "lock list \<Rightarrow> exn + string list" where
  "describe_all [] = Inr []"
| "describe_all (l # ls) =
     (case format_age (lk_age l) of
        Inl e \<Rightarrow> Inl e
      | Inr age \<Rightarrow>
          (case describe_all ls of
             Inl e \<Rightarrow> Inl e
           | Inr ds \<Rightarrow> Inr ((lk_name l @ '' (age '' @ age @ '')'') # ds)))"

definition describe_present :: "'w env \<Rightarrow> path \<Rightarrow> (('w, 'z) io_scheme, string) prog" where
  "describe_present env gitdir =
     seq (find_locks env gitdir) (\<lambda>locks.
       seq (of_sum (describe_all locks)) (\<lambda>ds. ret (join '', '' ds)))"

section \<open>The decision is safe\<close>

lemma minutes_split:
  "n div 60 = n div 86400 * 1440 + n mod 86400 div 3600 * 60 + n mod 86400 mod 3600 div 60"
  "n mod 86400 div 3600 < 24" "n mod 86400 mod 3600 div 60 < 60" for n :: nat
proof -
  define d r h q m e where "d = n div 86400" and "r = n mod 86400" and "h = r div 3600"
    and "q = r mod 3600" and "m = q div 60" and "e = q mod 60"
  have "n = 86400 * d + r" "r = 3600 * h + q" "q = 60 * m + e"
    by (simp_all add: d_def r_def h_def q_def m_def e_def)
  then have "n = 60 * (d * 1440 + h * 60 + m) + e" by (simp add: add_mult_distrib2)
  moreover have "e < 60" by (simp add: e_def)
  moreover from this have "(60 * k + e) div 60 = k" for k by simp
  ultimately have "n div 60 = d * 1440 + h * 60 + m" by metis
  then show "n div 60 = n div 86400 * 1440 + n mod 86400 div 3600 * 60 + n mod 86400 mod 3600 div 60"
    by (simp only: d_def r_def h_def q_def m_def)
qed (simp_all add: less_mult_imp_div_less)

lemma STALE_AFTER_eq [simp]: "STALE_AFTER = Fin 240"
  using double_of_int [of 240] by (simp add: STALE_AFTER_def DEFAULT_TIMEOUT_def)

lemma stale_reason_None:
  "stale_reason l running = None \<longleftrightarrow> running = Some False \<and> \<not> f_lt (lk_age l) (Fin 240)"
  by (auto simp: stale_reason_def split: option.split bool.split)

lemma format_age_finite: "\<exists>t. format_age (Fin q) = Inr t"
  by (simp add: format_age_def)

section \<open>What is found\<close>

text \<open>Where a lock that \<^verbatim>\<open>find_locks\<close> reports can be, and what it is called.\<close>

definition lock_below :: "path \<Rightarrow> path \<Rightarrow> bool" where
  "lock_below gitdir p \<longleftrightarrow>
     (\<exists>n. lock_file n \<and> p = descend gitdir [n])
     \<or> (\<exists>ws. ws \<noteq> [] \<and> lock_file (last ws) \<and> p = descend gitdir (''refs'' # ws))"

lemma descend_descend [simp]: "descend (descend p ws) vs = descend p (ws @ vs)"
  by (simp add: descend_def)

lemma glob_locks_yields: "yields (glob_locks env d) (\<lambda>ps. \<forall>p \<in> set ps. lock_below d p)"
  unfolding glob_locks_def by (auto intro!: yields_seq_any yields_ret simp: lock_below_def)

lemma rglob_locks_yields:
  "yields (rglob_locks env (descend d [''refs''])) (\<lambda>ps. \<forall>p \<in> set ps. lock_below d p)"
  unfolding rglob_locks_def by (auto intro!: yields_seq_any yields_ret simp: lock_below_def)

lemma stat_locks_yields:
  "sorted (map path_key ps) \<Longrightarrow>
   yields (stat_locks env d now ps :: (('w, 'z) io_scheme, lock list) prog)
     (\<lambda>ls. sorted (map (\<lambda>l. path_key (lk_path l)) ls) \<and> (\<forall>l \<in> set ls. lk_path l \<in> set ps) \<and>
       (\<forall>l \<in> set ls. lk_name l = relative_posix (lk_path l) d))"
proof (induction ps)
  case Nil
  then show ?case by (auto intro: yields_ret)
next
  case (Cons p ps)
  then have "sorted (map path_key ps)" by simp
  note IH = Cons.IH [OF this]
  have le: "\<forall>q \<in> set ps. path_key p \<le> path_key q" using Cons.prems by auto
  show ?case unfolding stat_locks.simps
  proof (rule yields_seq_any)
    fix m
    show "yields (case m of
          None \<Rightarrow> (stat_locks env d now ps :: (('w, 'z) io_scheme, lock list) prog)
        | Some mtime \<Rightarrow> seq (stat_locks env d now ps) (\<lambda>ls.
              ret (\<lparr>lk_path = p, lk_name = relative_posix p d, lk_age = f_sub now mtime\<rparr> # ls)))
       (\<lambda>ls. sorted (map (\<lambda>l. path_key (lk_path l)) ls) \<and> (\<forall>l \<in> set ls. lk_path l \<in> set (p # ps)) \<and>
         (\<forall>l \<in> set ls. lk_name l = relative_posix (lk_path l) d))"
    proof (cases m)
      case None
      with IH show ?thesis by (auto simp: yields_def)
    next
      case (Some mtime)
      then show ?thesis using le by (auto intro!: yields_seq [OF IH] yields_ret)
    qed
  qed
qed

lemma find_locks_yields:
  "yields (find_locks env d)
     (\<lambda>ls. sorted (map (\<lambda>l. path_key (lk_path l)) ls) \<and>
       (\<forall>l \<in> set ls. lock_below d (lk_path l) \<and> lk_name l = relative_posix (lk_path l) d))"
  unfolding find_locks_def
proof (rule yields_seq_any, rule yields_seq [OF glob_locks_yields], rule yields_seq [OF rglob_locks_yields])
  fix now top refs
  assume below: "\<forall>p \<in> set top. lock_below d p" "\<forall>p \<in> set refs. lock_below d p"
  have "sorted (map path_key (sort_key path_key (top @ refs)))" by (rule sorted_sort_key)
  then show "yields (stat_locks env d now (sort_key path_key (top @ refs)))
     (\<lambda>ls. sorted (map (\<lambda>l. path_key (lk_path l)) ls) \<and>
       (\<forall>l \<in> set ls. lock_below d (lk_path l) \<and> lk_name l = relative_posix (lk_path l) d))"
    using below by (intro yields_mono [OF stat_locks_yields]) (auto simp del: sorted_sort_key)
qed

section \<open>Looking changes nothing\<close>

lemma glob_locks_silent: "grows P (glob_locks env d)"
  unfolding glob_locks_def except_os_def
  by (intro grow_intros) (auto split: exn.splits intro: grow_intros)

lemma rglob_locks_silent: "grows P (rglob_locks env d)"
  unfolding rglob_locks_def by (intro grow_intros)

lemma stat_locks_silent: "grows P (stat_locks env d now ps)"
proof (induction ps)
  case (Cons p ps)
  show ?case unfolding stat_locks.simps except_os_def
    by (intro grow_intros) (auto split: exn.splits option.split intro!: grow_intros Cons)
qed (simp add: grow_intros)

lemma find_locks_silent: "grows P (find_locks env d)"
  unfolding find_locks_def
  by (intro grow_intros glob_locks_silent rglob_locks_silent stat_locks_silent)

lemma scan_comm_silent: "grows P (scan_comm env pids)"
proof (induction pids)
  case (Cons p ps)
  show ?case unfolding scan_comm.simps except_os_def
    by (intro grow_intros) (auto split: exn.splits intro!: grow_intros Cons)
qed (simp add: grow_intros)

lemma git_running_silent: "grows P (git_running env)"
  unfolding git_running_def except_os_def
  by (intro grow_intros)
     (auto split: exn.splits option.split list.split intro!: grow_intros scan_comm_silent
       simp del: scan_comm.simps)

lemma describe_present_silent: "grows P (describe_present env d)"
  unfolding describe_present_def by (intro grow_intros find_locks_silent)

lemma silent_trace: "(\<And>P. grows P m) \<Longrightarrow> m s = (r, s') \<Longrightarrow> trace s' = trace s"
  using grows_new [of "\<lambda>_. False" m s r s'] by (cases "new_effects s s'") auto

section \<open>What the sweep does\<close>

definition sweep_effect :: "bool option \<Rightarrow> lock \<Rightarrow> effect \<Rightarrow> bool" where
  "sweep_effect running l e \<longleftrightarrow>
     (\<exists>m. e = ELog Warn m) \<or> (e = EUnlink (lk_path l) \<and> stale_reason l running = None)"

lemma sweep_lock_grows: "grows (sweep_effect running l) (sweep_lock env running l)"
  unfolding sweep_lock_def Let_def
  by (cases "stale_reason l running")
     (auto intro!: grow_intros simp: sweep_effect_def split: option.split exn.splits)

text \<open>The locks a piece of trace warns about, in order.\<close>

text \<open>What \<^verbatim>\<open>Path.unlink\<close> is known to raise.\<close>

definition unlink_fails_softly :: "'w env \<Rightarrow> bool" where
  "unlink_fails_softly env \<longleftrightarrow>
     (\<forall>p w e. fst (x_unlink env p w) = Inl e \<longrightarrow> (\<exists>c. e = OSError c))"

definition warned_lock :: "effect \<Rightarrow> string list" where
  "warned_lock e =
     (case e of
        ELog Warn m \<Rightarrow>
          (case m of
             MLeftLock n a r \<Rightarrow> [n]
           | MUnlinkFailed n a c \<Rightarrow> [n]
           | MRemovedLock n a \<Rightarrow> [n]
           | _ \<Rightarrow> [])
      | _ \<Rightarrow> [])"

definition warned_locks :: "effect list \<Rightarrow> string list" where
  "warned_locks es = concat (map warned_lock es)"

lemma warned_locks_append: "warned_locks (es @ es') = warned_locks es @ warned_locks es'"
  by (simp add: warned_locks_def)

lemma sweep_lock_left:
  "stale_reason l running = Some why \<Longrightarrow> lk_age l = Fin q \<Longrightarrow>
   sweep_lock env running l s = (Inr (), s\<lparr>trace := trace s @
     [ELog Warn (MLeftLock (lk_name l) (age_text (nat (max 0 (trunc_rat q)))) why)]\<rparr>)"
  by (simp add: sweep_lock_def format_age_def seq_Inr emit_def)

lemma sweep_lock_unlink:
  assumes "stale_reason l running = None" and "lk_age l = Fin q"
    and "x_unlink env (lk_path l) (world s) = (r, w)" and "\<And>e. r = Inl e \<Longrightarrow> \<exists>c. e = OSError c"
  shows "sweep_lock env running l s =
     (Inr (), s\<lparr>world := w, trace := trace s @ [EUnlink (lk_path l), ELog Warn
        (case r of Inl e \<Rightarrow> MUnlinkFailed (lk_name l) (age_text (nat (max 0 (trunc_rat q)))) (exn_name e)
                 | Inr _ \<Rightarrow> MRemovedLock (lk_name l) (age_text (nat (max 0 (trunc_rat q)))))]\<rparr>)"
  using assms
  by (cases r) (auto simp: sweep_lock_def format_age_def seq_Inr emit_def andthen_def
      seq_def attempt_def sys_try_def ret_def)

lemma sweep_lock_reports:
  assumes fin: "lk_age l = Fin q"
    and os: "unlink_fails_softly env"
  shows "\<exists>s' es. sweep_lock env running l s = (Inr (), s') \<and> trace s' = trace s @ es \<and>
           warned_locks es = [lk_name l]"
proof (cases "stale_reason l running")
  case (Some why)
  show ?thesis
    unfolding sweep_lock_left [OF Some fin]
    by (intro exI conjI, rule refl, simp) (simp add: warned_locks_def warned_lock_def)
next
  case None
  obtain r w where u: "x_unlink env (lk_path l) (world s) = (r, w)"
    by (cases "x_unlink env (lk_path l) (world s)")
  then have oserr: "\<And>e. r = Inl e \<Longrightarrow> \<exists>c. e = OSError c" using os unfolding unlink_fails_softly_def by (metis fst_conv)
  show ?thesis
    by (intro exI conjI, rule sweep_lock_unlink [OF None fin u oserr], assumption, simp)
       (cases r; simp add: warned_locks_def warned_lock_def)
qed

lemma sweep_locks_report:
  assumes "\<forall>l \<in> set ls. \<exists>q. lk_age l = Fin q"
    and "unlink_fails_softly env"
  shows "\<exists>s' es. foreach ls (sweep_lock env running) s = (Inr (), s') \<and> trace s' = trace s @ es \<and>
           warned_locks es = map lk_name ls"
  using assms(1)
proof (induction ls arbitrary: s)
  case (Cons l ls)
  then obtain q where q: "lk_age l = Fin q" by auto
  obtain s1 es1 where 1: "sweep_lock env running l s = (Inr (), s1)"
      "trace s1 = trace s @ es1" "warned_locks es1 = [lk_name l]"
    using sweep_lock_reports [where env = env and running = running and s = s, OF q assms(2)]
    by auto
  have "\<forall>l \<in> set ls. \<exists>q. lk_age l = Fin q" using Cons.prems by simp
  then obtain s2 es2 where "foreach ls (sweep_lock env running) s1 = (Inr (), s2)"
      "trace s2 = trace s1 @ es2" "warned_locks es2 = map lk_name ls"
    using Cons.IH [of s1] by auto
  with 1 show ?case
    by (intro exI [of _ s2] exI [of _ "es1 @ es2"])
       (simp add: andthen_def seq_Inr warned_locks_append)
qed (simp add: ret_def warned_locks_def)

section \<open>Properties\<close>

text \<open>
  C13: The sweep removes a file only when it is a lock that this very sweep found in the git
  directory or below its \<^verbatim>\<open>refs\<close>, its age was not below 240 seconds (twice the git timeout), and the
  process table showed that no git process was running. An unknown process table, a running git
  or a young lock means that nothing is removed.
\<close>

theorem sweep_removes_only_stale:
  assumes "sweep env d s = (r, s')" and "EUnlink p \<in> set (new_effects s s')"
  shows "\<exists>ls s1 s2 l. find_locks env d s = (Inr ls, s1) \<and> git_running env s1 = (Inr (Some False), s2) \<and>
           l \<in> set ls \<and> lk_path l = p \<and> lock_below d p \<and> \<not> f_lt (lk_age l) (Fin 240)"
proof -
  obtain r1 s1 where f: "find_locks env d s = (r1, s1)" by (cases "find_locks env d s")
  then have t1: "trace s1 = trace s" using silent_trace [OF find_locks_silent] by blast
  have "\<exists>ls. r1 = Inr ls \<and> ls \<noteq> []"
    using assms f t1
    by (cases r1) (auto simp: sweep_def seq_Inl seq_Inr emit_def new_effects_def split: if_splits)
  then obtain ls where ls: "r1 = Inr ls" "ls \<noteq> []" by blast
  obtain r2 s2 where g: "git_running env s1 = (r2, s2)" by (cases "git_running env s1")
  then have t2: "trace s2 = trace s" using silent_trace [OF git_running_silent] t1 by metis
  obtain running where running: "r2 = Inr running"
    using assms f ls g t2 by (cases r2) (auto simp: sweep_def seq_Inl seq_Inr new_effects_def)
  have run: "foreach ls (sweep_lock env running) s2 = (r, s')"
    using assms(1) f ls g running by (simp add: sweep_def seq_Inr)
  let ?P = "\<lambda>e. \<exists>l \<in> set ls. sweep_effect running l e"
  have "grows ?P (foreach ls (sweep_lock env running))"
    by (rule grows_foreach) (blast intro: grows_mono [OF sweep_lock_grows])
  moreover have "EUnlink p \<in> set (new_effects s2 s')"
    using assms(2) t2 by (simp add: new_effects_def)
  ultimately have "?P (EUnlink p)"
    using grows_newD [where P = ?P and m = "foreach ls (sweep_lock env running)"] run by blast
  then obtain l where l: "l \<in> set ls" "sweep_effect running l (EUnlink p)" by blast
  then have "lk_path l = p" "running = Some False" "\<not> f_lt (lk_age l) (Fin 240)"
    by (auto simp: sweep_effect_def stale_reason_None)
  moreover have "lock_below d (lk_path l)"
    using yieldsD [OF find_locks_yields, of env d s ls s1] f ls l(1) by blast
  ultimately show ?thesis using f ls g running l(1) by blast
qed

text \<open>
  C32: A sweep over the locks that were found, once the process table has been read and as long as
  removing a file fails with an \<^verbatim>\<open>OSError\<close> only, returns normally and logs exactly one warning for
  each lock, in the order of their paths: removed, left in place, or could not be removed. One
  file that cannot be removed never hides the others.
\<close>

theorem sweep_reports_every_lock:
  assumes "find_locks env d s = (Inr ls, s1)" and "git_running env s1 = (Inr running, s2)"
    and "\<forall>l \<in> set ls. \<exists>q. lk_age l = Fin q"
    and "unlink_fails_softly env"
    and "sweep env d s = (r, s')"
  shows "r = Inr () \<and> warned_locks (new_effects s s') = map lk_name ls"
proof -
  have t1: "trace s1 = trace s" using silent_trace [OF find_locks_silent] assms(1) by blast
  have t2: "trace s2 = trace s" using silent_trace [OF git_running_silent] assms(2) t1 by metis
  show ?thesis
  proof (cases "ls = []")
    case True
    with assms(1,5) t1 have "r = Inr ()" "new_effects s s' = [ELog Debug MNoLocks]"
      by (auto simp: sweep_def seq_Inr emit_def new_effects_def)
    with True show ?thesis by (simp add: warned_locks_def warned_lock_def)
  next
    case False
    obtain u es where u: "foreach ls (sweep_lock env running) s2 = (Inr (), u)"
        "trace u = trace s2 @ es" "warned_locks es = map lk_name ls"
      using sweep_locks_report [where env = env and running = running and s = s2, OF assms(3,4)]
      by auto
    from False u assms(1,2,5) have "r = Inr ()" "s' = u" by (auto simp: sweep_def seq_Inr)
    with u t2 show ?thesis by (simp add: new_effects_def)
  qed
qed

text \<open>
  The age in a log line names whole days, hours and minutes: for a minute or more its parts are
  exactly the non-zero numbers of days, hours (below 24) and minutes (below 60) that add up to the
  age in minutes, in that order; below a minute it is the number of seconds, which a negative age
  makes zero.
\<close>

theorem format_age_units:
  assumes "int_of_float x = Inr i"
  shows "(i < 60 \<longrightarrow> format_age x = Inr (str_of_nat (nat (max 0 i)) @ ''s'')) \<and>
    (60 \<le> i \<longrightarrow> (\<exists>d h m. nat i div 60 = d * 1440 + h * 60 + m \<and> h < 24 \<and> m < 60 \<and>
       format_age x = Inr (join '' '' (concat
         [if d \<noteq> 0 then [str_of_nat d @ ''d''] else [],
          if h \<noteq> 0 then [str_of_nat h @ ''h''] else [],
          if m \<noteq> 0 then [str_of_nat m @ ''m''] else []]))))"
proof (intro conjI impI)
  assume "i < 60"
  then have "nat (max 0 i) < 60" by simp
  then show "format_age x = Inr (str_of_nat (nat (max 0 i)) @ ''s'')"
    using assms by (simp add: format_age_def age_text_def Let_def)
next
  assume "60 \<le> i"
  define n where "n = nat i"
  have n: "60 \<le> n" "nat (max 0 i) = n" using \<open>60 \<le> i\<close> by (simp_all add: n_def)
  define d where "d = n div 86400"
  define h where "h = n mod 86400 div 3600"
  define m where "m = n mod 86400 mod 3600 div 60"
  have sum: "n div 60 = d * 1440 + h * 60 + m" and bounds: "h < 24" "m < 60"
    unfolding d_def h_def m_def by (rule minutes_split)+
  have "d \<noteq> 0 \<or> h \<noteq> 0 \<or> m \<noteq> 0"
  proof (rule ccontr)
    assume "\<not> ?thesis"
    with sum have "n div 60 = 0" by simp
    with n(1) show False by simp
  qed
  then have "format_age x = Inr (join '' '' (concat
         [if d \<noteq> 0 then [str_of_nat d @ ''d''] else [],
          if h \<noteq> 0 then [str_of_nat h @ ''h''] else [],
          if m \<noteq> 0 then [str_of_nat m @ ''m''] else []]))"
    using assms by (simp add: format_age_def n(2) age_text_def Let_def flip: d_def h_def m_def) auto
  with sum bounds show "\<exists>d h m. nat i div 60 = d * 1440 + h * 60 + m \<and> h < 24 \<and> m < 60 \<and>
       format_age x = Inr (join '' '' (concat
         [if d \<noteq> 0 then [str_of_nat d @ ''d''] else [],
          if h \<noteq> 0 then [str_of_nat h @ ''h''] else [],
          if m \<noteq> 0 then [str_of_nat m @ ''m''] else []]))"
    unfolding n_def by blast
qed

section \<open>Examples\<close>

text \<open>A vault with one old lock, on a machine where no git process runs.\<close>

definition lock_vault :: path where
  "lock_vault = \<lparr>root = ''/'', parts = [''v'', ''.git'']\<rparr>"

definition lock_world :: script where
  "lock_world = script0
     \<lparr>sc_time := Fin 1000,
      sc_dirs := [(lock_vault, [''HEAD'', ''index.lock'']), (PROC_ROOT, [''1'', ''7'', ''self''])],
      sc_files := [(\<lparr>root = ''/'', parts = [''v'', ''.git'', ''index.lock'']\<rparr>, '''', Fin 0),
                   (\<lparr>root = ''/'', parts = [''proc'', ''1'', ''comm'']\<rparr>, ''init'', Fin 0)]\<rparr>"

lemma PROC_ROOT_eq: "PROC_ROOT = \<lparr>root = ''/'', parts = [''proc'']\<rparr>"
  by code_simp

lemma eval_1000: "double_of_rat 1000 = Fin 1000"
  using double_of_int [of 1000] by simp

definition lock_start :: "script io" where
  "lock_start = \<lparr>world = lock_world, trace = []\<rparr>"

definition example_lock :: lock where
  "example_lock = \<lparr>lk_path = \<lparr>root = ''/'', parts = [''v'', ''.git'', ''index.lock'']\<rparr>,
     lk_name = ''index.lock'', lk_age = Fin 1000\<rparr>"

lemma example_find: "find_locks script_env lock_vault lock_start = (Inr [example_lock], lock_start)"
  by (simp add: find_locks_def glob_locks_def rglob_locks_def seq_def sys_def sys_try_def attempt_def
     script_env_def lock_start_def lock_world_def script0_def lock_vault_def PROC_ROOT_eq descend_def
     lock_file_def endswith_def startswith_def ret_def relative_posix_def path_str_def eval_1000 example_lock_def)

lemma own_pid: "str_of_nat 7 = ''7''" by code_simp
lemma digit_names: "py_isdigit ''1''" "py_isdigit ''7''" "\<not> py_isdigit ''self''" by code_simp+
lemma init_strip: "strip ''init'' = ''init''" by code_simp

lemma example_running: "git_running script_env lock_start = (Inr (Some False), lock_start)"
  by (simp add: git_running_def seq_def sys_def sys_try_def attempt_def
     script_env_def lock_start_def lock_world_def script0_def lock_vault_def PROC_ROOT_eq descend_def
     own_pid digit_names init_strip read_text_def universal_newlines_def ret_def)

lemma example_unlink: "fst (x_unlink script_env (lk_path example_lock) lock_world) = Inr ()"
  by (simp add: script_env_def lock_world_def example_lock_def)

lemma example_sweep_lock:
  "sweep_lock script_env (Some False) example_lock lock_start =
     (Inr (), \<lparr>world = snd (x_unlink script_env (lk_path example_lock) lock_world),
       trace = [EUnlink (lk_path example_lock), ELog Warn (MRemovedLock ''index.lock'' ''16m'')]\<rparr>)"
proof -
  have "str_of_nat 16 = ''16''" by code_simp
  then have "age_text 1000 = ''16m''" by (simp add: age_text_def Let_def)
  then have age: "format_age (lk_age example_lock) = Inr ''16m''"
    by (simp add: example_lock_def format_age_def trunc_rat_def)
  have none: "stale_reason example_lock (Some False) = None" "lk_name example_lock = ''index.lock''"
    by (simp_all add: stale_reason_def example_lock_def)
  obtain w where w: "x_unlink script_env (lk_path example_lock) lock_world = (Inr (), w)"
    using example_unlink by (metis prod.collapse)
  show ?thesis
    by (simp add: sweep_lock_def age none andthen_def seq_def attempt_def emit_def sys_try_def
        lock_start_def w ret_def)
qed

lemma example_sweep:
  "\<exists>s'. sweep script_env lock_vault lock_start = (Inr (), s') \<and>
     new_effects lock_start s' = [EUnlink (lk_path example_lock), ELog Warn (MRemovedLock ''index.lock'' ''16m'')]"
  using example_sweep_lock
  by (simp add: sweep_def seq_Inr example_find example_running andthen_def ret_def new_effects_def)
     (simp add: lock_start_def)

theorem sweep_removes_only_stale_witness:
  "\<exists>ls s1 s2 l. find_locks script_env lock_vault lock_start = (Inr ls, s1) \<and>
     git_running script_env s1 = (Inr (Some False), s2) \<and> l \<in> set ls \<and>
     lk_path l = lk_path example_lock \<and> lock_below lock_vault (lk_path example_lock) \<and>
     \<not> f_lt (lk_age l) (Fin 240)"
  using example_sweep sweep_removes_only_stale [of script_env lock_vault lock_start _ _ "lk_path example_lock"]
  by auto

lemma script_unlink_soft: "unlink_fails_softly script_env"
  by (auto simp: unlink_fails_softly_def script_env_def not_found_def split: option.splits)

theorem sweep_reports_every_lock_witness:
  "\<exists>s'. sweep script_env lock_vault lock_start = (Inr (), s') \<and>
     warned_locks (new_effects lock_start s') = [''index.lock'']"
proof -
  obtain s' where run: "sweep script_env lock_vault lock_start = (Inr (), s')"
    using example_sweep by blast
  with sweep_reports_every_lock [OF example_find example_running _ script_unlink_soft run]
  show ?thesis by (auto simp: example_lock_def)
qed

theorem format_age_units_witness: "format_age (Fin 45) = Inr ''45s''"
proof -
  have "str_of_nat 45 = ''45''" by code_simp
  then show ?thesis using format_age_units [of "Fin 45" 45] by (simp add: trunc_rat_def)
qed

end
