(* ===== verification/Events.thy ===== *)
theory Events
  imports PyFloat
begin

text \<open>
  \<^verbatim>\<open>events.py\<close>: the classified change events and the queue between the producers (the write
  listener, the file watcher, the sweep timer) and the one consumer (the git worker).
\<close>

section \<open>Events\<close>

definition MCP_WRITE :: string where
  "MCP_WRITE = ''mcp_write''"

definition SYNC_SWEEP :: string where
  "SYNC_SWEEP = ''sync_sweep''"

record sync_event =
  kind :: string
  operation :: "string option"
  paths :: "string list"
  trigger :: "string option"

definition mcp_write :: "string \<Rightarrow> string list \<Rightarrow> sync_event" where
  "mcp_write oper ps = \<lparr>kind = MCP_WRITE, operation = Some oper, paths = ps, trigger = None\<rparr>"

definition sync_sweep :: "string \<Rightarrow> sync_event" where
  "sync_sweep trig = \<lparr>kind = SYNC_SWEEP, operation = None, paths = [], trigger = Some trig\<rparr>"

text \<open>The shape of every event a producer builds.\<close>

definition wf_event :: "sync_event \<Rightarrow> bool" where
  "wf_event e \<longleftrightarrow>
     (kind e = MCP_WRITE \<and> operation e \<noteq> None \<and> trigger e = None)
     \<or> (kind e = SYNC_SWEEP \<and> operation e = None \<and> paths e = [] \<and> trigger e \<noteq> None)"

lemma kinds_differ [simp]: "MCP_WRITE \<noteq> SYNC_SWEEP" "SYNC_SWEEP \<noteq> MCP_WRITE"
  by (simp_all add: MCP_WRITE_def SYNC_SWEEP_def)

lemma wf_mcp_write [simp]: "wf_event (mcp_write oper ps)"
  by (simp add: wf_event_def mcp_write_def)

lemma wf_sync_sweep [simp]: "wf_event (sync_sweep trig)"
  by (simp add: wf_event_def sync_sweep_def)

section \<open>The queue\<close>

text \<open>
  \<^verbatim>\<open>EventQueue\<close> over \<^verbatim>\<open>queue.Queue\<close>: the events that wait, the oldest first. Every operation is
  atomic (the queue's own lock), so a concurrent history is a sequence of operations.
\<close>

type_synonym event_queue = "sync_event list"

definition new_queue :: event_queue where
  "new_queue = []"

definition put :: "event_queue \<Rightarrow> sync_event \<Rightarrow> event_queue" where
  "put q e = q @ [e]"

definition qsize :: "event_queue \<Rightarrow> nat" where
  "qsize q = length q"

text \<open>\<open>None\<close> is the exception \<^verbatim>\<open>queue.Empty\<close>.\<close>

fun get_nowait :: "event_queue \<Rightarrow> (sync_event \<times> event_queue) option" where
  "get_nowait [] = None"
| "get_nowait (e # q) = Some (e, q)"

text \<open>The loop of \<^verbatim>\<open>drain\<close>: take events until the queue says it is empty.\<close>

function drain :: "event_queue \<Rightarrow> sync_event list \<times> event_queue" where
  "drain q =
     (case get_nowait q of
        None \<Rightarrow> ([], q)
      | Some (e, q') \<Rightarrow> (case drain q' of (es, r) \<Rightarrow> (e # es, r)))"
  by pat_completeness auto

termination
proof (relation "measure length")
  fix q e q' and p :: "sync_event \<times> event_queue"
  assume "get_nowait q = Some p" "(e, q') = p"
  then show "(q', q) \<in> measure length" by (cases q) auto
qed simp

declare drain.simps [simp del]

text \<open>
  \<^verbatim>\<open>get(block, timeout)\<close>, looked at when \<open>elapsed\<close> seconds of the wait have gone by. The
  queue hands out its head at once; an empty queue raises \<^verbatim>\<open>Empty\<close> when the time is up and else
  waits on a condition variable, whose lock refuses a wait beyond \<open>lock_timeout_max\<close> seconds.
  \<open>Waiting\<close> says that nothing has been decided yet. \<open>wait_get\<close> is the loop: the queue is looked at again,
  each time the wait wakes up, until a look decides.
\<close>

datatype get_result = Item sync_event event_queue | Empty | Waiting | Failed exn

definition lock_timeout_max :: rat where
  "lock_timeout_max = 9223372036"

definition get :: "event_queue \<Rightarrow> bool \<Rightarrow> pyfloat option \<Rightarrow> pyfloat \<Rightarrow> get_result" where
  "get q block t elapsed =
     (case t of
        Some d \<Rightarrow>
          if block \<and> f_lt d (Fin 0)
          then Failed (ValueError ([CHR 0x27] @ ''timeout'' @ [CHR 0x27] @ '' must be a non-negative number''))
          else (case get_nowait q of
                  Some (e, q') \<Rightarrow> Item e q'
                | None \<Rightarrow>
                    if \<not> block \<or> f_le (f_sub d elapsed) (Fin 0) then Empty
                    else if f_lt (Fin lock_timeout_max) (f_sub d elapsed)
                         then Failed (OverflowError ''timeout value is too large'')
                         else Waiting)
      | None \<Rightarrow>
          (case get_nowait q of
             Some (e, q') \<Rightarrow> Item e q'
           | None \<Rightarrow> if block then Waiting else Empty))"

fun wait_get :: "event_queue \<Rightarrow> pyfloat \<Rightarrow> rat list \<Rightarrow> get_result" where
  "wait_get q t [] = Waiting"
| "wait_get q t (e # es) =
     (case get q True (Some t) (Fin e) of Waiting \<Rightarrow> wait_get q t es | r \<Rightarrow> r)"

text \<open>
  The readings of the monotonic clock in one wait, in seconds from its beginning: there is a first one, within the
  first second, and the clock never goes back.
\<close>

definition clock_looks :: "rat list \<Rightarrow> bool" where
  "clock_looks es \<longleftrightarrow> es \<noteq> [] \<and> 0 \<le> hd es \<and> hd es \<le> 1 \<and> sorted es"

section \<open>The queue as a contract\<close>

text \<open>
  What producers and the consumer rely on: a queue whose content is a list, at the end of
  which \<open>put\<close> appends and from the front of which \<open>take\<close> removes.
\<close>

locale fifo =
  fixes empty :: 'q
    and add :: "'q \<Rightarrow> 'e \<Rightarrow> 'q"
    and take :: "'q \<Rightarrow> ('e \<times> 'q) option"
    and size :: "'q \<Rightarrow> nat"
    and content :: "'q \<Rightarrow> 'e list"
  assumes content_empty: "content empty = []"
    and content_add: "content (add q e) = content q @ [e]"
    and take_None: "take q = None \<longleftrightarrow> content q = []"
    and take_Some: "take q = Some (e, q') \<Longrightarrow> content q = e # content q'"
    and size_content: "size q = length (content q)"
begin

lemma content_adds: "content (foldl add q es) = content q @ es"
  by (induction es arbitrary: q) (auto simp: content_add)

text \<open>The first of the events that were put last comes out after everything older.\<close>

lemma take_after_add:
  "take (add q e) = Some (e', q') \<Longrightarrow>
   (content q = [] \<and> e' = e \<and> content q' = []) \<or> (\<exists>r. content q = e' # r \<and> content q' = r @ [e])"
  using take_Some [of "add q e" e' q'] by (cases "content q") (auto simp: content_add)

fun takes :: "nat \<Rightarrow> 'q \<Rightarrow> 'e list" where
  "takes 0 q = []"
| "takes (Suc n) q = (case take q of None \<Rightarrow> [] | Some (e, q') \<Rightarrow> e # takes n q')"

lemma takes_content: "takes n q = List.take n (content q)"
proof (induction n arbitrary: q)
  case (Suc n)
  show ?case
  proof (cases "take q")
    case None
    then show ?thesis using take_None [of q] by simp
  next
    case (Some p)
    then show ?thesis using take_Some [of q "fst p" "snd p"] Suc by (cases p) simp
  qed
qed simp

text \<open>Everything that was put comes out, once, in the order in which it was put.\<close>

lemma takes_all: "takes (size (foldl add empty es)) (foldl add empty es) = es"
  by (simp add: takes_content size_content content_adds content_empty)

end

interpretation eq: fifo new_queue put get_nowait qsize "\<lambda>q. q"
proof unfold_locales
  show "get_nowait q = None \<longleftrightarrow> q = []" for q by (cases q) auto
  show "get_nowait q = Some (e, q') \<Longrightarrow> q = e # q'" for q e q' by (cases q) auto
qed (auto simp: new_queue_def put_def qsize_def)

text \<open>\<^verbatim>\<open>drain\<close> returns the content and leaves the queue empty.\<close>

lemma drain_eq: "drain q = (q, [])"
proof (induction q rule: drain.induct)
  case (1 q)
  show ?case
  proof (cases q)
    case Nil
    then show ?thesis by (simp add: drain.simps)
  next
    case (Cons e q')
    with 1 have "drain q' = (q', [])" by (cases "get_nowait q") auto
    with Cons show ?thesis by (subst drain.simps) simp
  qed
qed

text \<open>A waiting consumer gets an event as soon as there is one, and never another one.\<close>

lemma get_head:
  "\<not> (\<exists>d. t = Some d \<and> block \<and> f_lt d (Fin 0)) \<Longrightarrow> get (e # q) block t elapsed = Item e q"
  by (auto simp: get_def split: option.split)

lemma get_Item: "get q block t elapsed = Item e q' \<Longrightarrow> q = e # q'"
  by (cases q) (auto simp: get_def split: option.splits if_splits)

text \<open>
  A finite timeout within the lock's range: the wait on an empty queue ends with \<open>Empty\<close>
  exactly when the time is up, and never with another exception.
\<close>

lemma get_empty_finite:
  assumes "0 < d" and "d \<le> lock_timeout_max" and "0 \<le> e" and "e < d"
    and "double_of_rat (d - e) = Fin (d - e)"
  shows "get [] True (Some (Fin d)) (Fin e) = Waiting"
  using assms by (auto simp: get_def)

lemma get_empty_expired:
  assumes "0 < d" and "d \<le> e"
  shows "get [] True (Some (Fin d)) (Fin e) = Empty"
proof -
  have "f_le (double_of_rat (d - e)) (Fin 0)"
    using double_of_rat_nonpos [of "d - e"] assms(2) by auto
  then show ?thesis using assms(1) by (simp add: get_def)
qed

text \<open>A timeout that is not a number never runs out: the queue is polled for ever.\<close>

lemma get_empty_nan: "get [] True (Some NaN) elapsed = Waiting"
  by (simp add: get_def)

text \<open>An infinite one kills the consumer: the wait itself raises.\<close>

lemma get_empty_infinite:
  "\<exists>m. get [] True (Some PInf) (Fin e) = Failed (OverflowError m)"
  by (simp add: get_def)

lemma get_Empty: "get q block t elapsed = Empty \<Longrightarrow> q = []"
  by (cases q) (auto simp: get_def split: option.splits if_splits)

text \<open>A look within the range of the locks never raises.\<close>

lemma get_in_range:
  assumes "0 < d" and "d + 1 \<le> lock_timeout_max" and "0 \<le> e"
  shows "get [] True (Some (Fin d)) (Fin e) \<in> {Empty, Waiting}"
proof (cases "d \<le> e")
  case True
  with get_empty_expired [OF assms(1) True] show ?thesis by simp
next
  case False
  have "lock_timeout_max < pow2 53" by (simp add: lock_timeout_max_def pow2_def)
  with False assms obtain v where v: "double_of_rat (d - e) = Fin v" "v \<le> (d - e) + 1"
    using double_of_rat_le [of "d - e"] by auto
  with assms have "\<not> lock_timeout_max < v" by simp
  with v(1) assms(1) False show ?thesis by (auto simp: get_def)
qed

section \<open>A whole wait\<close>

lemma wait_get_Item: "wait_get q t es = Item e q' \<Longrightarrow> q = e # q'"
  by (induction q t es rule: wait_get.induct) (auto dest: get_Item split: get_result.splits)

lemma wait_get_Empty: "wait_get q t es = Empty \<Longrightarrow> q = []"
  by (induction q t es rule: wait_get.induct) (auto dest: get_Empty split: get_result.splits)

lemma wait_get_head:
  assumes "\<not> f_lt t (Fin 0)" and "es \<noteq> []"
  shows "wait_get (e # q) t es = Item e q"
  using assms by (cases es) (simp_all add: get_head)

text \<open>A finite wait in range: it comes to an end when the time is up, and never to another exception.\<close>

lemma wait_get_expired:
  assumes "0 < d" and "d + 1 \<le> lock_timeout_max"
  shows "wait_get [] (Fin d) [0, d] = Empty"
  using get_in_range [OF assms order_refl] get_empty_expired [OF assms(1) order_refl] by auto

lemma wait_get_in_range:
  assumes "0 < d" and "d + 1 \<le> lock_timeout_max" and "list_all (\<lambda>e. 0 \<le> e) es"
  shows "wait_get [] (Fin d) es \<in> {Empty, Waiting}"
  using assms(3)
proof (induction es)
  case (Cons e es)
  then show ?case using get_in_range [OF assms(1,2), of e] by auto
qed simp

lemma clock_looks_nonneg: "clock_looks es \<Longrightarrow> list_all (\<lambda>e. 0 \<le> e) es"
  by (cases es) (auto simp: clock_looks_def list_all_iff)

text \<open>An infinite wait raises at its first look, whenever that is.\<close>

lemma wait_get_infinite: "es \<noteq> [] \<Longrightarrow> \<exists>m. wait_get [] PInf es = Failed (OverflowError m)"
proof (cases es)
  case (Cons e es')
  obtain m where "get [] True (Some PInf) (Fin e) = Failed (OverflowError m)" using get_empty_infinite by blast
  with Cons show ?thesis by simp
qed simp

section \<open>Properties\<close>

text \<open>
  Draining is complete and ends. Whatever has been put, \<^verbatim>\<open>drain\<close> returns all of it, the oldest first, which is
  what taking one event after the other gives, and leaves an empty queue; nothing is returned twice.
\<close>

theorem drain_is_complete:
  "drain (foldl put q es) = (q @ es, new_queue) \<and>
   fst (drain q) = eq.takes (qsize q) q \<and> drain (snd (drain q)) = ([], new_queue)"
  using eq.content_adds [of q es] by (simp add: drain_eq eq.takes_content qsize_def new_queue_def)

text \<open>
  C35: A wait on the queue is bounded and cannot fail. With a timeout of \<open>d\<close> seconds that is positive and
  below the limit of the interpreter's locks by at least one, an event that is there is returned at
  once, an empty queue is reported as soon as \<open>d\<close> seconds have gone by, and at no moment of the
  wait is another exception raised that would end the consumer.
\<close>

theorem queue_wait_is_bounded:
  assumes "0 < d" and "d + 1 \<le> lock_timeout_max" and "0 \<le> e"
  shows "get (ev # q) True (Some (Fin d)) (Fin e) = Item ev q \<and>
    get [] True (Some (Fin d)) (Fin e) \<in> {Empty, Waiting} \<and>
    (d \<le> e \<longrightarrow> get [] True (Some (Fin d)) (Fin e) = Empty)"
  using get_in_range [OF assms] get_empty_expired [OF assms(1)] assms(1) by (simp add: get_head)

theorem queue_wait_is_bounded_witness: "get [] True (Some (Fin 10)) (Fin 12) = Empty"
proof -
  have "(0::rat) < 10" "(10::rat) + 1 \<le> lock_timeout_max" "(0::rat) \<le> 12" by (simp_all add: lock_timeout_max_def)
  from queue_wait_is_bounded [OF this] show ?thesis by simp
qed

end
