(* ===== verification/PyUrl.thy ===== *)
theory PyUrl
  imports PyNum
begin

text \<open>
  \<^verbatim>\<open>urllib.parse.urlsplit\<close>, as far as the package reads its result: the scheme and the network
  location, and the user name, host name and port inside the latter.
\<close>

section \<open>Addresses in brackets\<close>

definition is_hex :: "char \<Rightarrow> bool" where
  "is_hex c \<longleftrightarrow> is_digit c \<or> (let n = code_point (lower_char c) in 97 \<le> n \<and> n \<le> 102)"

definition octet_ok :: "string \<Rightarrow> bool" where
  "octet_ok w \<longleftrightarrow> w \<noteq> [] \<and> list_all is_digit w \<and> length w \<le> 3 \<and>
     \<not> (w \<noteq> ''0'' \<and> hd w = CHR ''0'') \<and> digits_val w \<le> 255"

definition ipv4_ok :: "string \<Rightarrow> bool" where
  "ipv4_ok s \<longleftrightarrow> \<not> (CHR ''/'' \<in> set s) \<and>
     length (split_on (CHR ''.'') s) = 4 \<and> list_all octet_ok (split_on (CHR ''.'') s)"

definition hextet_ok :: "string \<Rightarrow> bool" where
  "hextet_ok w \<longleftrightarrow> w \<noteq> [] \<and> list_all is_hex w \<and> length w \<le> 4"

text \<open>The parts between the colons, an embedded IPv4 address counted as two of them.\<close>

definition ipv6_parts_ok :: "string list \<Rightarrow> bool" where
  "ipv6_parts_ok ps \<longleftrightarrow>
     (let n = length ps; skips = filter (\<lambda>i. ps ! i = []) [1 ..< n - 1] in
      n \<le> 9 \<and>
      (case skips of
         [] \<Rightarrow> n = 8 \<and> list_all hextet_ok ps
       | [k] \<Rightarrow>
           (let hi = (if hd ps = [] then k - 1 else k);
                lo = (if last ps = [] then n - k - 2 else n - k - 1) in
            (hd ps = [] \<longrightarrow> hi = 0) \<and> (last ps = [] \<longrightarrow> lo = 0) \<and> hi + lo \<le> 7 \<and>
            list_all hextet_ok (take hi ps) \<and> list_all hextet_ok (drop (n - lo) ps))
       | _ \<Rightarrow> False))"

definition ipv6_ok :: "string \<Rightarrow> bool" where
  "ipv6_ok s \<longleftrightarrow>
     (case partition_at (CHR ''%'') s of (a, scoped, scope) \<Rightarrow>
        CHR ''/'' \<notin> set s \<and> (scoped \<longrightarrow> scope \<noteq> [] \<and> CHR ''%'' \<notin> set scope) \<and> a \<noteq> [] \<and>
        (let ps = split_on (CHR '':'') a in
         3 \<le> length ps \<and>
         (if CHR ''.'' \<in> set (last ps)
          then ipv4_ok (last ps) \<and> ipv6_parts_ok (butlast ps @ [''0'', ''0''])
          else ipv6_parts_ok ps)))"

text \<open>A future address: \<^verbatim>\<open>v\<close>, hexadecimal digits, a dot and something.\<close>

definition ipvfuture_ok :: "string \<Rightarrow> bool" where
  "ipvfuture_ok s \<longleftrightarrow>
     (case dropWhile is_hex (tl s) of
        [] \<Rightarrow> False
      | c # rest \<Rightarrow> takeWhile is_hex (tl s) \<noteq> [] \<and> c = CHR ''.'' \<and> rest \<noteq> [])"

text \<open>What the check of a bracketed host complains about, if anything.\<close>

definition bracketed_error :: "string \<Rightarrow> string option" where
  "bracketed_error s =
     (if startswith s ''v''
      then (if ipvfuture_ok s then None else Some ''IPvFuture address is invalid'')
      else if ipv4_ok s then Some ''An IPv4 address cannot be in brackets''
      else if ipv6_ok s then None
      else Some (py_repr s @ '' does not appear to be an IPv4 or IPv6 address''))"

section \<open>Splitting\<close>

record split_result =
  scheme :: string
  netloc :: string

definition is_alpha :: "char \<Rightarrow> bool" where
  "is_alpha c = (let n = code_point c in (65 \<le> n \<and> n \<le> 90) \<or> (97 \<le> n \<and> n \<le> 122))"

definition scheme_char :: "char \<Rightarrow> bool" where
  "scheme_char c \<longleftrightarrow> is_alpha c \<or> is_digit c \<or> c = CHR ''+'' \<or> c = CHR ''-'' \<or> c = CHR ''.''"

definition clean_url :: "string \<Rightarrow> string" where
  "clean_url u =
     filter (\<lambda>c. code_point c \<noteq> 9 \<and> code_point c \<noteq> 10 \<and> code_point c \<noteq> 13)
       (lstrip_if (\<lambda>c. code_point c \<le> 32) u)"

definition split_scheme :: "string \<Rightarrow> string \<times> string" where
  "split_scheme u =
     (case partition_at (CHR '':'') u of (a, found, b) \<Rightarrow>
        if found \<and> a \<noteq> [] \<and> is_alpha (hd a) \<and> list_all scheme_char a then (lower a, b) else ('''', u))"

definition split_netloc :: "string \<Rightarrow> string" where
  "split_netloc u =
     (if startswith u ''//''
      then takeWhile (\<lambda>c. c \<noteq> CHR ''/'' \<and> c \<noteq> CHR ''?'' \<and> c \<noteq> CHR ''#'') (drop 2 u) else '''')"

definition urlsplit :: "string \<Rightarrow> exn + split_result" where
  "urlsplit url =
     (case split_scheme (clean_url url) of (sch, u) \<Rightarrow>
        let loc = split_netloc u; open_br = CHR ''['' \<in> set loc; close_br = CHR '']'' \<in> set loc in
        if open_br \<noteq> close_br then Inl (ValueError ''Invalid IPv6 URL'')
        else (case (if open_br
                    then bracketed_error
                      (fst (partition_at (CHR '']'') (snd (snd (partition_at (CHR ''['') loc)))))
                    else None) of
                Some m \<Rightarrow> Inl (ValueError m)
              | None \<Rightarrow> Inr \<lparr>scheme = sch, netloc = loc\<rparr>))"

text \<open>\<^verbatim>\<open>username\<close>: the part before the first colon of what stands before the last at-sign.\<close>

definition username :: "split_result \<Rightarrow> string option" where
  "username r =
     (case rpartition_at (CHR ''@'') (netloc r) of (userinfo, found, hostinfo) \<Rightarrow>
        if found then Some (fst (partition_at (CHR '':'') userinfo)) else None)"

definition hostinfo :: "split_result \<Rightarrow> string \<times> string" where
  "hostinfo r =
     (let h = snd (snd (rpartition_at (CHR ''@'') (netloc r))) in
      case partition_at (CHR ''['') h of (_, have_br, bracketed) \<Rightarrow>
        if have_br
        then (case partition_at (CHR '']'') bracketed of (host, _, after) \<Rightarrow>
                (host, snd (snd (partition_at (CHR '':'') after))))
        else (case partition_at (CHR '':'') h of (host, _, port) \<Rightarrow> (host, port)))"

definition hostname :: "split_result \<Rightarrow> string option" where
  "hostname r =
     (let host = fst (hostinfo r) in
      if host = [] then None
      else (case partition_at (CHR ''%'') host of (name, found, zone) \<Rightarrow>
              Some (lower name @ (if found then [CHR ''%''] else []) @ zone)))"

definition port :: "split_result \<Rightarrow> exn + nat option" where
  "port r =
     (let p = snd (hostinfo r) in
      if p = [] then Inr None
      else if list_all is_digit p \<and> length p \<le> max_str_digits
      then (if digits_val p \<le> 65535 then Inr (Some (digits_val p))
            else Inl (ValueError ''Port out of range 0-65535''))
      else Inl (ValueError (''Port could not be cast to integer value as '' @ py_repr p)))"

text \<open>Everything these functions raise is a \<^verbatim>\<open>ValueError\<close>.\<close>

lemma urlsplit_ValueError: "urlsplit u = Inl e \<Longrightarrow> \<exists>m. e = ValueError m"
  by (auto simp: urlsplit_def Let_def split: prod.splits if_splits option.splits)

lemma port_ValueError: "port r = Inl e \<Longrightarrow> \<exists>m. e = ValueError m"
  by (auto simp: port_def Let_def split: if_splits)

lemma port_bound: "port r = Inr (Some p) \<Longrightarrow> p \<le> 65535"
  by (auto simp: port_def Let_def split: if_splits)

end
