(* ===== verification/Config.thy ===== *)
theory Config
  imports Scripted PyUrl
begin

text \<open>
  \<^verbatim>\<open>config.py\<close>: the settings as the environment gives them (raw texts, read once), the accessors
  that parse them, and \<^verbatim>\<open>validate_gitsync\<close>, the one check that may refuse the start. The vault
  path is the upstream server's setting of that name.
\<close>

section \<open>The raw settings\<close>

record settings =
  VAULT_PATH :: path
  VAULT_GIT_ENABLED :: string
  VAULT_GIT_SWEEP_INTERVAL :: string
  VAULT_GIT_REMOTE :: string
  VAULT_GIT_BRANCH :: string
  VAULT_GIT_PUSH_DEBOUNCE :: string
  VAULT_GIT_PUSH_MAX_INTERVAL :: string
  VAULT_GIT_GIT_AUTHOR_NAME :: string
  VAULT_GIT_GIT_AUTHOR_EMAIL :: string
  VAULT_GIT_HEARTBEAT_URL :: string
  VAULT_GIT_STAMP :: string
  VAULT_GIT_TOKEN :: string

text \<open>\<^verbatim>\<open>os.environ.get(name, default)\<close>\<close>

definition environ_get :: "(string \<Rightarrow> string option) \<Rightarrow> string \<Rightarrow> string \<Rightarrow> string" where
  "environ_get environ name dflt = (case environ name of None \<Rightarrow> dflt | Some v \<Rightarrow> v)"

definition read_settings :: "path \<Rightarrow> (string \<Rightarrow> string option) \<Rightarrow> settings" where
  "read_settings vault_path environ =
     \<lparr>VAULT_PATH = vault_path,
      VAULT_GIT_ENABLED = environ_get environ ''VAULT_GIT_ENABLED'' '''',
      VAULT_GIT_SWEEP_INTERVAL = environ_get environ ''VAULT_GIT_SWEEP_INTERVAL'' ''60'',
      VAULT_GIT_REMOTE = environ_get environ ''VAULT_GIT_REMOTE'' ''origin'',
      VAULT_GIT_BRANCH = environ_get environ ''VAULT_GIT_BRANCH'' '''',
      VAULT_GIT_PUSH_DEBOUNCE = environ_get environ ''VAULT_GIT_PUSH_DEBOUNCE'' ''10'',
      VAULT_GIT_PUSH_MAX_INTERVAL = environ_get environ ''VAULT_GIT_PUSH_MAX_INTERVAL'' ''300'',
      VAULT_GIT_GIT_AUTHOR_NAME = environ_get environ ''VAULT_GIT_GIT_AUTHOR_NAME'' '''',
      VAULT_GIT_GIT_AUTHOR_EMAIL = environ_get environ ''VAULT_GIT_GIT_AUTHOR_EMAIL'' '''',
      VAULT_GIT_HEARTBEAT_URL = environ_get environ ''VAULT_GIT_HEARTBEAT_URL'' '''',
      VAULT_GIT_STAMP = environ_get environ ''VAULT_GIT_STAMP'' '''',
      VAULT_GIT_TOKEN = environ_get environ ''VAULT_GIT_TOKEN'' ''''\<rparr>"

section \<open>Accessors\<close>

definition TRUTHY :: "string list" where
  "TRUTHY = [''1'', ''true'', ''yes'', ''on'']"

definition FALSEY :: "string list" where
  "FALSEY = [''0'', ''false'', ''no'', ''off'']"

definition is_truthy :: "string \<Rightarrow> bool \<Rightarrow> bool" where
  "is_truthy raw dflt =
     (let value = lower (strip raw) in
      if value \<in> set TRUTHY then True else if value \<in> set FALSEY then False else dflt)"

definition is_enabled :: "settings \<Rightarrow> bool" where
  "is_enabled cfg = is_truthy (VAULT_GIT_ENABLED cfg) False"

definition stamp_enabled :: "settings \<Rightarrow> bool" where
  "stamp_enabled cfg = is_truthy (VAULT_GIT_STAMP cfg) True"

text \<open>\<open>None\<close> where \<^verbatim>\<open>int\<close> or \<^verbatim>\<open>float\<close> raises \<^verbatim>\<open>ValueError\<close>.\<close>

definition sweep_interval :: "settings \<Rightarrow> int option" where
  "sweep_interval cfg = int_of_text (VAULT_GIT_SWEEP_INTERVAL cfg)"

definition cfg_remote :: "settings \<Rightarrow> string" where
  "cfg_remote cfg = strip (VAULT_GIT_REMOTE cfg)"

definition cfg_branch :: "settings \<Rightarrow> string" where
  "cfg_branch cfg = strip (VAULT_GIT_BRANCH cfg)"

definition cfg_push_debounce :: "settings \<Rightarrow> pyfloat option" where
  "cfg_push_debounce cfg = float_of_text (VAULT_GIT_PUSH_DEBOUNCE cfg)"

definition cfg_push_max_interval :: "settings \<Rightarrow> pyfloat option" where
  "cfg_push_max_interval cfg = float_of_text (VAULT_GIT_PUSH_MAX_INTERVAL cfg)"

definition or_none :: "string \<Rightarrow> string option" where
  "or_none s = (if s = [] then None else Some s)"

definition author_name :: "settings \<Rightarrow> string option" where
  "author_name cfg = or_none (strip (VAULT_GIT_GIT_AUTHOR_NAME cfg))"

definition author_email :: "settings \<Rightarrow> string option" where
  "author_email cfg = or_none (strip (VAULT_GIT_GIT_AUTHOR_EMAIL cfg))"

definition token :: "settings \<Rightarrow> string" where
  "token cfg = strip (VAULT_GIT_TOKEN cfg)"

definition cfg_heartbeat_url :: "settings \<Rightarrow> string" where
  "cfg_heartbeat_url cfg = strip (VAULT_GIT_HEARTBEAT_URL cfg)"

section \<open>Validation\<close>

text \<open>The checks of \<^verbatim>\<open>validate_gitsync\<close>, in the order in which it makes them.\<close>

definition check_vault :: "'w env \<Rightarrow> settings \<Rightarrow> (('w, 'z) io_scheme, unit) prog" where
  "check_vault env cfg =
     seq (sys (x_is_dir env (VAULT_PATH cfg))) (\<lambda>is_dir.
       if \<not> is_dir
       then throw (ValueError (''git-sync is enabled but VAULT_PATH does not exist or is not a directory: ''
              @ path_str (VAULT_PATH cfg)))
       else seq (sys (x_exists env (joinpath (VAULT_PATH cfg) ''.git''))) (\<lambda>has_git.
         if \<not> has_git
         then throw (ValueError (''git-sync is enabled but VAULT_PATH is not a git working tree (no .git found): ''
                @ path_str (VAULT_PATH cfg)))
         else ret ()))"

definition check_interval :: "settings \<Rightarrow> exn + unit" where
  "check_interval cfg =
     (case int_of_text (VAULT_GIT_SWEEP_INTERVAL cfg) of
        None \<Rightarrow> Inl (ValueError ''VAULT_GIT_SWEEP_INTERVAL must be an integer number of seconds'')
      | Some interval \<Rightarrow>
          if interval \<le> 0 then Inl (ValueError ''VAULT_GIT_SWEEP_INTERVAL must be a positive integer'')
          else Inr ())"

fun check_timing :: "(string \<times> string) list \<Rightarrow> exn + unit" where
  "check_timing [] = Inr ()"
| "check_timing ((name, raw) # rest) =
     (case float_of_text raw of
        None \<Rightarrow> Inl (ValueError (name @ '' must be a number of seconds''))
      | Some value \<Rightarrow>
          if f_le value (Fin 0) then Inl (ValueError (name @ '' must be a positive number of seconds''))
          else check_timing rest)"

text \<open>
  An HTTP(S) remote whose URL carries no user name needs a token.
\<close>

definition needs_token :: "split_result \<Rightarrow> bool" where
  "needs_token parsed \<longleftrightarrow>
     lower (scheme parsed) \<in> set [''http'', ''https''] \<and>
     (case username parsed of None \<Rightarrow> True | Some u \<Rightarrow> u = [])"

definition get_url_argv :: "settings \<Rightarrow> string list" where
  "get_url_argv cfg = [''git'', ''-C'', path_str (VAULT_PATH cfg), ''remote'', ''get-url'', cfg_remote cfg]"

definition check_remote :: "'w env \<Rightarrow> settings \<Rightarrow> (('w, 'z) io_scheme, unit) prog" where
  "check_remote env cfg =
     (let remote_name = cfg_remote cfg in
      if remote_name = [] then ret ()
      else seq (run_process env (get_url_argv cfg))
        (\<lambda>(code, out, err).
          if code \<noteq> 0
          then throw (ValueError (''git-sync is enabled but VAULT_GIT_REMOTE '' @ [single_quote] @ remote_name
                 @ [single_quote] @ '' does not exist in the vault at VAULT_PATH''))
          else seq (of_sum (urlsplit (strip out))) (\<lambda>parsed.
            if needs_token parsed \<and> token cfg = []
            then throw (ValueError ''git-sync is enabled with an HTTPS VAULT_GIT_REMOTE but no push credential is configured; set VAULT_GIT_TOKEN'')
            else ret ())))"

definition cfg_identity_args :: "settings \<Rightarrow> string list" where
  "cfg_identity_args cfg =
     (case author_name cfg of None \<Rightarrow> [] | Some name \<Rightarrow> [''-c'', ''user.name='' @ name])
   @ (case author_email cfg of None \<Rightarrow> [] | Some email \<Rightarrow> [''-c'', ''user.email='' @ email])"

definition ident_argv :: "settings \<Rightarrow> string list" where
  "ident_argv cfg = [''git'', ''-C'', path_str (VAULT_PATH cfg)] @ cfg_identity_args cfg
     @ [''var'', ''GIT_AUTHOR_IDENT'']"

definition check_identity :: "'w env \<Rightarrow> settings \<Rightarrow> (('w, 'z) io_scheme, unit) prog" where
  "check_identity env cfg =
     seq (run_process env (ident_argv cfg))
       (\<lambda>(code, out, err).
         if code \<noteq> 0
         then throw (ValueError ''git-sync is enabled but git cannot resolve a committer identity; set VAULT_GIT_GIT_AUTHOR_NAME and VAULT_GIT_GIT_AUTHOR_EMAIL'')
         else ret ())"

definition check_heartbeat :: "settings \<Rightarrow> exn + unit" where
  "check_heartbeat cfg =
     (let hb_url = cfg_heartbeat_url cfg in
      if hb_url = [] then Inr ()
      else (case urlsplit hb_url of
              Inl e \<Rightarrow> Inl (ValueError ''VAULT_GIT_HEARTBEAT_URL has a malformed port'')
            | Inr parsed \<Rightarrow>
                (case port parsed of
                   Inl e \<Rightarrow> Inl (ValueError ''VAULT_GIT_HEARTBEAT_URL has a malformed port'')
                 | Inr p \<Rightarrow>
                     if lower (scheme parsed) \<notin> set [''http'', ''https''] \<or> \<not> is_set (hostname parsed)
                     then Inl (ValueError ''VAULT_GIT_HEARTBEAT_URL must be an http(s) URL with a host'')
                     else Inr ())))"

definition validate_gitsync :: "'w env \<Rightarrow> settings \<Rightarrow> (('w, 'z) io_scheme, unit) prog" where
  "validate_gitsync env cfg =
     (if \<not> is_enabled cfg then ret ()
      else andthen (check_vault env cfg)
          (andthen (of_sum (check_interval cfg))
          (andthen (of_sum (check_timing
             [(''VAULT_GIT_PUSH_DEBOUNCE'', VAULT_GIT_PUSH_DEBOUNCE cfg),
              (''VAULT_GIT_PUSH_MAX_INTERVAL'', VAULT_GIT_PUSH_MAX_INTERVAL cfg)]))
          (andthen (check_remote env cfg)
          (andthen (check_identity env cfg)
             (of_sum (check_heartbeat cfg)))))))"

section \<open>What an accepted configuration is\<close>

definition heartbeat_ok :: "string \<Rightarrow> bool" where
  "heartbeat_ok u \<longleftrightarrow> u = [] \<or>
     (case urlsplit u of
        Inl e \<Rightarrow> False
      | Inr p \<Rightarrow> (lower (scheme p) = ''http'' \<or> lower (scheme p) = ''https'') \<and> is_set (hostname p) \<and>
                 (case port p of Inl e \<Rightarrow> False | Inr n \<Rightarrow> True))"

definition positive_float :: "pyfloat option \<Rightarrow> bool" where
  "positive_float x = (case x of None \<Rightarrow> False | Some v \<Rightarrow> \<not> f_le v (Fin 0))"

definition accepted :: "settings \<Rightarrow> bool" where
  "accepted cfg \<longleftrightarrow>
     (case sweep_interval cfg of None \<Rightarrow> False | Some n \<Rightarrow> 0 < n) \<and>
     positive_float (cfg_push_debounce cfg) \<and> positive_float (cfg_push_max_interval cfg) \<and>
     heartbeat_ok (cfg_heartbeat_url cfg)"

lemma check_interval_ok:
  "check_interval cfg = Inr () \<longleftrightarrow> (case sweep_interval cfg of None \<Rightarrow> False | Some n \<Rightarrow> 0 < n)"
  by (auto simp: check_interval_def sweep_interval_def split: option.split)

lemma check_timing_ok:
  "check_timing xs = Inr () \<longleftrightarrow> list_all (\<lambda>(n, raw). positive_float (float_of_text raw)) xs"
  by (induction xs rule: check_timing.induct) (auto simp: positive_float_def split: option.split)

lemma check_heartbeat_ok: "check_heartbeat cfg = Inr () \<longleftrightarrow> heartbeat_ok (cfg_heartbeat_url cfg)"
  by (auto simp: check_heartbeat_def heartbeat_ok_def Let_def split: sum.split)

lemma accepted_checks:
  "accepted cfg \<longleftrightarrow> check_interval cfg = Inr () \<and>
     check_timing [(''VAULT_GIT_PUSH_DEBOUNCE'', VAULT_GIT_PUSH_DEBOUNCE cfg),
       (''VAULT_GIT_PUSH_MAX_INTERVAL'', VAULT_GIT_PUSH_MAX_INTERVAL cfg)] = Inr () \<and>
     check_heartbeat cfg = Inr ()"
  by (simp add: accepted_def check_interval_ok check_timing_ok check_heartbeat_ok
      cfg_push_debounce_def cfg_push_max_interval_def del: check_timing.simps)

text \<open>
  What the exit codes of the two commands of validation must have been. Validation that returns has run them
  in this order.
\<close>

lemma check_vault_trace: "trace (snd (check_vault env cfg s)) = trace s"
  by (simp add: check_vault_def seq_def sys_def ret_def throw_def split: prod.split)

lemma check_remote_returned:
  assumes "check_remote env cfg s = (Inr (), s')"
  shows "trace s' = trace s @ (if cfg_remote cfg = [] then [] else [EGit (get_url_argv cfg) (Some 0)])"
    and "cfg_remote cfg \<noteq> [] \<Longrightarrow>
      \<exists>out err w. x_run env (get_url_argv cfg) (world s) = (Inr (0, out, err), w) \<and>
        (\<exists>p. urlsplit (strip out) = Inr p \<and> (needs_token p \<longrightarrow> token cfg \<noteq> []))"
  using assms
  by (auto simp: check_remote_def Let_def seq_eq_Inr run_process_def
      split: prod.splits if_splits sum.splits)

lemma check_identity_returned:
  assumes "check_identity env cfg s = (Inr (), s')"
  shows "trace s' = trace s @ [EGit (ident_argv cfg) (Some 0)]"
  using assms
  by (auto simp: check_identity_def seq_eq_Inr run_process_def
      split: prod.splits if_splits)

lemma validate_enabled_returned:
  assumes "validate_gitsync env cfg s = (Inr (), s')" and "is_enabled cfg"
  obtains s1 s2 where "check_vault env cfg s = (Inr (), s1)"
    "check_remote env cfg s1 = (Inr (), s2)" "check_identity env cfg s2 = (Inr (), s')" "accepted cfg"
  using assms by (auto simp: validate_gitsync_def andthen_eq_Inr accepted_checks simp del: check_timing.simps)

lemma validate_trace:
  assumes "validate_gitsync env cfg s = (Inr (), s')" and "is_enabled cfg"
  shows "trace s' = trace s @ (if cfg_remote cfg = [] then [] else [EGit (get_url_argv cfg) (Some 0)])
    @ [EGit (ident_argv cfg) (Some 0)]"
proof -
  obtain s1 s2 where run: "check_vault env cfg s = (Inr (), s1)"
    "check_remote env cfg s1 = (Inr (), s2)" "check_identity env cfg s2 = (Inr (), s')" "accepted cfg"
    using assms by (rule validate_enabled_returned)
  then show ?thesis
    using check_vault_trace [of env cfg s] check_remote_returned(1) [OF run(2)] check_identity_returned [OF run(3)]
    by simp
qed

section \<open>Properties\<close>

text \<open>
  C12: Validation fails closed. When it lets an enabled configuration pass, the sweep interval is
  a positive integer, neither of the two push timings is a number that is zero or less, the
  heartbeat URL is empty or an HTTP(S) URL with a host and a well-formed port; the only commands it
  has run are the question for the URL of the configured remote and the question for the author
  identity, with the identity the worker will commit under, and git answered both; and the URL of
  the remote needs no token or a token is set.
\<close>

theorem validate_fails_closed:
  assumes "validate_gitsync env cfg s = (Inr (), s')" and "is_enabled cfg"
  shows "accepted cfg \<and>
    new_effects s s' =
      (if cfg_remote cfg = [] then [] else [EGit (get_url_argv cfg) (Some 0)])
        @ [EGit (ident_argv cfg) (Some 0)] \<and>
    (cfg_remote cfg \<noteq> [] \<longrightarrow>
       (\<exists>w out err w' p. x_run env (get_url_argv cfg) w = (Inr (0, out, err), w') \<and>
          urlsplit (strip out) = Inr p \<and> (needs_token p \<longrightarrow> token cfg \<noteq> [])))"
proof -
  obtain s1 s2 where run: "check_vault env cfg s = (Inr (), s1)"
    "check_remote env cfg s1 = (Inr (), s2)" "check_identity env cfg s2 = (Inr (), s')" "accepted cfg"
    using assms by (rule validate_enabled_returned)
  note validate_trace [OF assms]
  then show ?thesis
    using run(4) check_remote_returned(2) [OF run(2)] by (auto simp: new_effects_eq)
qed

definition example_settings :: settings where
  "example_settings =
     (read_settings (path_of ''/vault'') (\<lambda>_. None))
       \<lparr>VAULT_GIT_ENABLED := '' True '', VAULT_GIT_TOKEN := ''secret'',
        VAULT_GIT_HEARTBEAT_URL := ''https://monitor:8443/ping/key''\<rparr>"

definition example_checkout :: script where
  "example_checkout = script0
     \<lparr>sc_dirs := [(path_of ''/vault'', [''.git'']), (path_of ''/vault/.git'', [])],
      sc_runs := [Inr (0, ''https://github.com/me/notes.git'', ''''), Inr (0, ''me'', '''')]\<rparr>"


lemmas url_eval =
  urlsplit_def clean_url_def split_netloc_def startswith_def lstrip_if_def split_scheme_def
  partition_at_def rpartition_at_def is_alpha_def scheme_char_def lower_def lower_char_def
  is_digit_def username_def hostname_def hostinfo_def port_def Let_def

lemma eval_float_10: "float_of_text ''10'' = Some (Fin 10)"
proof -
  have "str_of_nat 10 = ''10''" by code_simp
  then show ?thesis using float_of_text_nat [of 10] by simp
qed

lemma eval_float_300: "float_of_text ''300'' = Some (Fin 300)"
proof -
  have "str_of_nat 300 = ''300''" by code_simp
  then show ?thesis using float_of_text_nat [of 300] by simp
qed

lemma example_raw:
  "VAULT_PATH example_settings = path_of ''/vault''"
  "VAULT_GIT_PUSH_DEBOUNCE example_settings = ''10''"
  "VAULT_GIT_PUSH_MAX_INTERVAL example_settings = ''300''"
  "cfg_remote example_settings = ''origin''" "token example_settings = ''secret''"
  "author_name example_settings = None" "author_email example_settings = None"
  "is_enabled example_settings"
  by code_simp+

lemma example_heartbeat_url: "cfg_heartbeat_url example_settings = ''https://monitor:8443/ping/key''"
  by code_simp

lemma example_heartbeat: "check_heartbeat example_settings = Inr ()"
  by (simp add: check_heartbeat_def example_heartbeat_url url_eval max_str_digits_def
      digits_val_def digit_val_def)

lemma example_interval: "check_interval example_settings = Inr ()"
  by code_simp

lemma example_vault_path: "path_of ''/vault/.git'' \<noteq> path_of ''/vault''"
  by code_simp

lemma example_git_path: "joinpath (path_of ''/vault'') ''.git'' = path_of ''/vault/.git''"
  by code_simp

lemma example_url: "urlsplit ''https://github.com/me/notes.git'' = Inr \<lparr>scheme = ''https'', netloc = ''github.com''\<rparr>"
  by (simp add: url_eval)

lemma example_strip: "strip ''https://github.com/me/notes.git'' = ''https://github.com/me/notes.git''"
  by code_simp

lemma example_validates:
  "fst (validate_gitsync script_env example_settings \<lparr>world = example_checkout, trace = []\<rparr>) = Inr ()"
  by (simp add: validate_gitsync_def example_raw andthen_def seq_def check_vault_def sys_def
      script_env_def example_git_path example_vault_path Let_def example_interval example_heartbeat eval_float_10
      eval_float_300 check_remote_def run_process_def example_checkout_def
      script0_def example_url example_strip check_identity_def ret_def)

theorem validate_fails_closed_witness:
  "accepted example_settings \<and> is_enabled example_settings"
proof -
  obtain s' where "validate_gitsync script_env example_settings \<lparr>world = example_checkout, trace = []\<rparr>
      = (Inr (), s')"
    using example_validates by (metis prod.collapse)
  then show ?thesis using validate_fails_closed example_raw(8) by blast
qed

end
