(* ===== verification/Heartbeat.thy ===== *)
theory Heartbeat
  imports Config
begin

text \<open>
  \<^verbatim>\<open>heartbeat.py\<close>: the GET request after a successful push. \<^verbatim>\<open>open_url\<close> is the opener of \<^verbatim>\<open>urllib\<close>
  (its redirect and error handling) with the package's redirect handler plugged in.
\<close>

definition HEARTBEAT_MAX_BYTES :: nat where
  "HEARTBEAT_MAX_BYTES = 1024"

text \<open>\<^verbatim>\<open>_NoRedirect.redirect_request\<close>: the request to follow a redirect with; \<open>None\<close> refuses.\<close>

definition redirect_request :: "string \<Rightarrow> string option" where
  "redirect_request newurl = None"

definition http_error :: exn where
  "http_error = Raised ''HTTPError'' ''''"

text \<open>
  The opener. A status from 200 to 299 is a response; a redirect with a target asks
  \<open>redirect_request\<close> and follows at most ten times; anything else raises.
\<close>

fun open_url :: "'w env \<Rightarrow> nat \<Rightarrow> string \<Rightarrow> pyfloat \<Rightarrow> (('w, 'z) io_scheme, http_reply) prog" where
  "open_url env left url t =
     andthen (emit (EHttp url t))
       (seq (sys_try (x_http env url t)) (\<lambda>r.
          if 200 \<le> status r \<and> status r < 300 then ret r
          else if status r \<in> {301, 302, 303, 307, 308}
          then (case location r of
                  None \<Rightarrow> throw http_error
                | Some newurl \<Rightarrow>
                    (case redirect_request newurl of
                       None \<Rightarrow> throw http_error
                     | Some u \<Rightarrow>
                         (case left of 0 \<Rightarrow> throw http_error | Suc k \<Rightarrow> open_url env k u t)))
          else throw http_error))"

declare open_url.simps [simp del]

definition ping :: "'w env \<Rightarrow> string \<Rightarrow> (('w, 'z) io_scheme, unit) prog" where
  "ping env url =
     (if url = [] then ret ()
      else seq (of_sum (urlsplit url)) (\<lambda>parts.
        let host = (if is_set (hostname parts) then the (hostname parts) else ''?'') in
        attempt
          (andthen (open_url env 10 url (Fin 10))
             (andthen (emit (EReadBody HEARTBEAT_MAX_BYTES))
                (sys_try (x_read_body env HEARTBEAT_MAX_BYTES))))
          (\<lambda>e. Some (log Warn (MHeartbeatFailed host (exn_name e))))))"

section \<open>What a ping does\<close>

text \<open>Redirects are never followed, so an open is one request.\<close>

lemma open_url_eq:
  "open_url env left url t =
    (     andthen (emit (EHttp url t))
       (seq (sys_try (x_http env url t))
         (\<lambda>r. if 200 \<le> status r \<and> status r < 300 then ret r else throw http_error)) :: (('w, 'z) io_scheme, http_reply) prog)"
proof -
  have "(if 200 \<le> status r \<and> status r < 300 then ret r
          else if status r \<in> {301, 302, 303, 307, 308}
          then (case location r of
                  None \<Rightarrow> throw http_error
                | Some newurl \<Rightarrow>
                    (case redirect_request newurl of
                       None \<Rightarrow> throw http_error
                     | Some u \<Rightarrow>
                         (case left of 0 \<Rightarrow> throw http_error | Suc k \<Rightarrow> open_url env k u t)))
          else throw http_error) =
      (if 200 \<le> status r \<and> status r < 300 then ret r else throw http_error :: (('w, 'z) io_scheme, http_reply) prog)" for r
    by (auto simp: redirect_request_def split: option.split)
  then show ?thesis
    by (subst open_url.simps) (simp only:)
qed

lemma ping_never_raises: "url = [] \<or> (\<exists>p. urlsplit url = Inr p) \<Longrightarrow> never_raises (ping env url)"
  by (auto simp: ping_def Let_def never_raises_def attempt_def emit_def split: prod.split sum.split)

text \<open>The requests among some effects.\<close>

definition requests :: "effect list \<Rightarrow> string list" where
  "requests es = concat (map (\<lambda>e. case e of EHttp u t \<Rightarrow> [u] | _ \<Rightarrow> []) es)"

lemma requests_append [simp]: "requests (es @ fs) = requests es @ requests fs"
  by (simp add: requests_def)

lemma requests_Nil [simp]: "requests [] = []"
  by (simp add: requests_def)

lemma requests_Cons [simp]:
  "requests (EHttp u t # es) = u # requests es" "requests (EReadBody n # es) = requests es"
  "requests (ELog l m # es) = requests es" "requests (EGit a c # es) = requests es"
  "requests (EUnlink p # es) = requests es" "requests (EWrite p x # es) = requests es"
  "requests (EWriteOut x # es) = requests es" "requests (EImport x # es) = requests es"
  by (simp_all add: requests_def)

definition ping_effect :: "string \<Rightarrow> effect \<Rightarrow> bool" where
  "ping_effect url e \<longleftrightarrow> e = EHttp url (Fin 10) \<or> e = EReadBody 1024 \<or>
     (\<exists>p c. urlsplit url = Inr p \<and>
        e = ELog Warn (MHeartbeatFailed (if is_set (hostname p) then the (hostname p) else ''?'') c))"

lemma ping_grows: "grows (ping_effect url) (ping env url)"
proof (cases "url = []")
  case False
  show ?thesis
  proof (cases "urlsplit url")
    case (Inr p)
    with False show ?thesis
      unfolding ping_def open_url_eq Let_def
      by (auto intro!: grow_intros simp: ping_effect_def HEARTBEAT_MAX_BYTES_def)
  qed (simp add: ping_def False grow_intros)
qed (simp add: ping_def grow_intros)

lemma ping_trace:
  assumes "url \<noteq> []" and "urlsplit url = Inr p"
  shows "\<exists>s' es. ping env url s = (Inr (), s') \<and> trace s' = trace s @ EHttp url (Fin 10) # es \<and>
     requests es = []"
  using assms
  by (auto simp: ping_def open_url_eq Let_def attempt_def andthen_def seq_def emit_def sys_try_def
      ret_def throw_def split: prod.split sum.split)

lemma frames_ping:
  assumes "\<And>s w t. f (s\<lparr>world := w, trace := t\<rparr>) = f s"
  shows "frames f (ping env url)"
proof -
  have w: "f (s\<lparr>world := w\<rparr>) = f s" for s w
    using assms [of "trace s" w s] by simp
  have t: "f (s\<lparr>trace := t\<rparr>) = f s" for s t
    using assms [of t "world s" s] by simp
  show ?thesis
    unfolding ping_def open_url_eq Let_def
    by (cases "urlsplit url") (auto intro!: frame_intros frames_emitI frames_sys_tryI simp: w t)
qed

text \<open>How the monitor fails: the request raises, the status is not one of success, or the body cannot be read.\<close>

definition monitor_answers :: "'w env \<Rightarrow> string \<Rightarrow> 'w \<Rightarrow> bool" where
  "monitor_answers env url w =
     (case x_http env url (Fin 10) w of
        (Inl e, w1) \<Rightarrow> False
      | (Inr r, w1) \<Rightarrow> 200 \<le> status r \<and> status r < 300)"

definition monitor_error :: "'w env \<Rightarrow> string \<Rightarrow> 'w \<Rightarrow> exn option" where
  "monitor_error env url w =
     (case x_http env url (Fin 10) w of
        (Inl e, w1) \<Rightarrow> Some e
      | (Inr r, w1) \<Rightarrow>
          if monitor_answers env url w
          then (case fst (x_read_body env 1024 w1) of Inl e \<Rightarrow> Some e | Inr u \<Rightarrow> None)
          else Some http_error)"

text \<open>A ping to a host, command by command.\<close>

lemma ping_exact:
  assumes "url \<noteq> []" and "urlsplit url = Inr p" and "hostname p = Some h" and "h \<noteq> []"
  shows "\<exists>s'. ping env url s = (Inr (), s') \<and>
    trace s' = trace s @ [EHttp url (Fin 10)] @ (if monitor_answers env url (world s) then [EReadBody 1024] else []) @
      (case monitor_error env url (world s) of
         None \<Rightarrow> []
       | Some e \<Rightarrow> [ELog Warn (MHeartbeatFailed h (exn_name e))])"
proof -
  obtain a w1 where a: "x_http env url (Fin 10) (world s) = (a, w1)" by (cases "x_http env url (Fin 10) (world s)")
  obtain b w2 where b: "x_read_body env 1024 w1 = (b, w2)" by (cases "x_read_body env 1024 w1")
  note run = ping_def open_url_eq Let_def attempt_def andthen_def seq_def emit_def sys_try_def ret_def throw_def
    HEARTBEAT_MAX_BYTES_def
  show ?thesis
  proof (cases a)
    case (Inl e)
    with a assms show ?thesis by (simp add: run monitor_answers_def monitor_error_def)
  next
    case (Inr r)
    show ?thesis
    proof (cases "200 \<le> status r \<and> status r < 300")
      case True
      with a b Inr assms show ?thesis by (cases b) (simp_all add: run monitor_answers_def monitor_error_def)
    next
      case False
      with a Inr assms show ?thesis by (auto simp: run monitor_answers_def monitor_error_def)
    qed
  qed
qed

section \<open>Properties\<close>

text \<open>
  C27: A heartbeat URL that validation accepts makes a harmless ping: in every state and whatever the monitor answers,
  it returns normally, and what it does is exactly this. It makes one request, to the configured URL (a redirect is
  never followed), with a timeout of ten seconds; if the status is one of success it reads at most 1024 bytes of the
  body; and it logs one warning if something failed, none if nothing did, of which the two fields are the host name
  of the URL and the name of the class of the exception that was raised. So neither the path and the query of the URL
  nor the text of the exception is written.
\<close>

theorem validated_ping_is_contained:
  assumes "check_heartbeat cfg = Inr ()" and "cfg_heartbeat_url cfg \<noteq> []"
    and "ping env (cfg_heartbeat_url cfg) s = (r, s')"
  shows "r = Inr () \<and> requests (new_effects s s') = [cfg_heartbeat_url cfg] \<and>
    (\<exists>p h. urlsplit (cfg_heartbeat_url cfg) = Inr p \<and> hostname p = Some h \<and>
       new_effects s s' =
         [EHttp (cfg_heartbeat_url cfg) (Fin 10)]
         @ (if monitor_answers env (cfg_heartbeat_url cfg) (world s) then [EReadBody 1024] else [])
         @ (case monitor_error env (cfg_heartbeat_url cfg) (world s) of
              None \<Rightarrow> []
            | Some e \<Rightarrow> [ELog Warn (MHeartbeatFailed h (exn_name e))]))"
proof -
  let ?u = "cfg_heartbeat_url cfg"
  obtain p where p: "urlsplit ?u = Inr p" "is_set (hostname p)"
    using assms(1,2) by (auto simp: check_heartbeat_ok heartbeat_ok_def split: sum.splits)
  then obtain h where h: "hostname p = Some h" "h \<noteq> []" by (cases "hostname p") auto
  from ping_exact [OF assms(2) p(1) h, of env s] assms(3) have 1: "r = Inr ()"
    "trace s' = trace s @ [EHttp ?u (Fin 10)] @ (if monitor_answers env ?u (world s) then [EReadBody 1024] else []) @
      (case monitor_error env ?u (world s) of None \<Rightarrow> [] | Some e \<Rightarrow> [ELog Warn (MHeartbeatFailed h (exn_name e))])"
    by auto
  have "requests (new_effects s s') = [?u]" using 1(2) by (simp add: new_effects_eq split: option.split)
  with 1(1) new_effects_eq [OF 1(2)] p(1) h(1) show ?thesis by blast
qed

theorem validated_ping_is_contained_witness:
  "\<exists>s'. ping script_env ''https://monitor:8443/ping/key'' \<lparr>world = script0, trace = []\<rparr> = (Inr (), s') \<and>
     requests (new_effects \<lparr>world = script0, trace = []\<rparr> s') = [''https://monitor:8443/ping/key'']"
proof -
  let ?s = "\<lparr>world = script0, trace = []\<rparr>"
  have "''https://monitor:8443/ping/key'' \<noteq> []" by simp
  then show ?thesis
    using validated_ping_is_contained [OF example_heartbeat, of script_env ?s]
    unfolding example_heartbeat_url
    by (cases "ping script_env ''https://monitor:8443/ping/key'' ?s") auto
qed

end
