(* ===== verification/PyTime.thy ===== *)
theory PyTime
  imports PyNum
begin

text \<open>
  \<^verbatim>\<open>datetime\<close> in UTC, as far as the package uses it: an instant is a number of seconds since
  1970-01-01T00:00:00Z, which \<^verbatim>\<open>strftime\<close> prints and \<^verbatim>\<open>strptime\<close> reads in the one format
  \<^verbatim>\<open>%Y-%m-%dT%H:%M:%SZ\<close>.
\<close>

section \<open>The calendar\<close>

definition is_leap :: "nat \<Rightarrow> bool" where
  "is_leap y = (y mod 4 = 0 \<and> (y mod 100 \<noteq> 0 \<or> y mod 400 = 0))"

definition month_lengths :: "bool \<Rightarrow> nat list" where
  "month_lengths leap = [31, if leap then 29 else 28, 31, 30, 31, 30, 31, 31, 30, 31, 30, 31]"

definition days_in_month :: "nat \<Rightarrow> nat \<Rightarrow> nat" where
  "days_in_month y m = month_lengths (is_leap y) ! (m - 1)"

definition days_before_year :: "nat \<Rightarrow> nat" where
  "days_before_year y = (y - 1) * 365 + (y - 1) div 4 - (y - 1) div 100 + (y - 1) div 400"

definition days_before_month :: "nat \<Rightarrow> nat \<Rightarrow> nat" where
  "days_before_month y m = sum_list (take (m - 1) (month_lengths (is_leap y)))"

text \<open>The proleptic ordinal of a date: 0001-01-01 is day 1.\<close>

definition ymd2ord :: "nat \<times> nat \<times> nat \<Rightarrow> nat" where
  "ymd2ord = (\<lambda>(y, m, d). days_before_year y + days_before_month y m + d)"

fun find_month :: "nat list \<Rightarrow> nat \<Rightarrow> nat \<times> nat" where
  "find_month [] r = (1, r + 1)"
| "find_month (l # ls) r =
     (if r < l then (1, r + 1) else (case find_month ls (r - l) of (m, d) \<Rightarrow> (Suc m, d)))"

definition ord2ymd :: "nat \<Rightarrow> nat \<times> nat \<times> nat" where
  "ord2ymd n =
     (let n400 = (n - 1) div 146097; r = (n - 1) mod 146097;
          n100 = r div 36524; r1 = r mod 36524;
          n4 = r1 div 1461; r2 = r1 mod 1461;
          n1 = r2 div 365; r3 = r2 mod 365;
          y = n400 * 400 + n100 * 100 + n4 * 4 + n1 + 1
      in if n1 = 4 \<or> n100 = 4 then (y - 1, 12, 31)
         else (case find_month (month_lengths (is_leap y)) r3 of (m, d) \<Rightarrow> (y, m, d)))"

definition valid_date :: "nat \<times> nat \<times> nat \<Rightarrow> bool" where
  "valid_date = (\<lambda>(y, m, d). 1 \<le> m \<and> m \<le> 12 \<and> 1 \<le> d \<and> d \<le> days_in_month y m)"

lemma find_month_correct:
  "r < sum_list ls \<Longrightarrow> find_month ls r = (m, d) \<Longrightarrow>
   1 \<le> m \<and> m \<le> length ls \<and> 1 \<le> d \<and> d \<le> ls ! (m - 1) \<and> sum_list (take (m - 1) ls) + d = r + 1"
proof (induction ls r arbitrary: m d rule: find_month.induct)
  case (2 l ls r)
  show ?case
  proof (cases "r < l")
    case True
    with 2 show ?thesis by auto
  next
    case False
    obtain m' d' where f: "find_month ls (r - l) = (m', d')" by (cases "find_month ls (r - l)")
    have "r - l < sum_list ls" using False 2(2) by simp
    note IH = 2(1) [OF False this f]
    with False 2(3) f have "m = Suc m'" "d = d'" by auto
    with IH False show ?thesis by (cases m') auto
  qed
qed simp

lemma sum_month_lengths: "sum_list (month_lengths leap) = (if leap then 366 else 365)"
  by (simp add: month_lengths_def)

lemma length_month_lengths [simp]: "length (month_lengths leap) = 12"
  by (simp add: month_lengths_def)

lemma div_add_lt: "r < k \<Longrightarrow> (k * q + r) div k = (q::nat)"
  by simp

lemma mod_top: "0 < (x :: nat) \<Longrightarrow> x \<le> n \<Longrightarrow> x mod n = 0 \<longleftrightarrow> x = n"
  by (cases "x = n") auto

lemma year_parts:
  assumes "b \<le> 3" and "c \<le> 24" and "e \<le> 3"
  shows "days_before_year (a * 400 + b * 100 + c * 4 + e + 1) = 146097 * a + 36524 * b + 1461 * c + 365 * e"
    and "is_leap (a * 400 + b * 100 + c * 4 + e + 1) \<longleftrightarrow> e = 3 \<and> (c \<noteq> 24 \<or> b = 3)"
proof -
  define z where "z = a * 400 + b * 100 + c * 4 + e"
  have "z div 4 = 100 * a + 25 * b + c"
    using div_add_lt [of e 4 "100 * a + 25 * b + c"] assms by (simp add: z_def algebra_simps)
  moreover have "z div 100 = 4 * a + b"
    using div_add_lt [of "c * 4 + e" 100 "4 * a + b"] assms by (simp add: z_def algebra_simps)
  moreover have "z div 400 = a"
    using div_add_lt [of "b * 100 + c * 4 + e" 400 a] assms by (simp add: z_def algebra_simps)
  ultimately show "days_before_year (a * 400 + b * 100 + c * 4 + e + 1)
      = 146097 * a + 36524 * b + 1461 * c + 365 * e"
    by (simp add: days_before_year_def flip: z_def) (simp add: z_def)
  have b: "b = 0 \<or> b = 1 \<or> b = 2 \<or> b = 3" and e: "e = 0 \<or> e = 1 \<or> e = 2 \<or> e = 3"
    using assms by auto
  have "z + 1 = (e + 1) + 4 * (100 * a + 25 * b + c)"
    and "z + 1 = (c * 4 + e + 1) + 100 * (4 * a + b)"
    and "z + 1 = (b * 100 + c * 4 + e + 1) + 400 * a"
    by (simp_all add: z_def)
  then have m4: "(z + 1) mod 4 = (e + 1) mod 4"
    and m100: "(z + 1) mod 100 = (c * 4 + e + 1) mod 100"
    and m400: "(z + 1) mod 400 = (b * 100 + c * 4 + e + 1) mod 400"
    by (metis mod_mult_self2)+
  have h: "(c * 4 + e + 1) mod 100 = 0 \<longleftrightarrow> c = 24 \<and> e = 3"
    using mod_top [of "c * 4 + e + 1" 100] assms by linarith
  have k: "(b * 100 + c * 4 + e + 1) mod 400 = 0 \<longleftrightarrow> b = 3 \<and> c = 24 \<and> e = 3"
    using mod_top [of "b * 100 + c * 4 + e + 1" 400] assms by linarith
  have l: "(e + 1) mod 4 = 0 \<longleftrightarrow> e = 3" using assms(3) by presburger
  show "is_leap (a * 400 + b * 100 + c * 4 + e + 1) \<longleftrightarrow> e = 3 \<and> (c \<noteq> 24 \<or> b = 3)"
    unfolding is_leap_def z_def [symmetric] m4 m100 m400 h k l by auto
qed

text \<open>The last day of a leap year, which the divisions count as the first day of a year that does not fit.\<close>

lemma leap_day_parts:
  assumes "n - 1 = 146097 * a + r" "r = 36524 * b + r1" "r1 = 1461 * c + r2" "r2 = 365 * e + r3" "1 \<le> n"
    and lts: "r < 146097" "r1 < 36524" "r2 < 1461" and "e = 4 \<or> b = (4 :: nat)"
  shows "\<exists>b' c'. b' \<le> 3 \<and> c' \<le> 24 \<and> a * 400 + b * 100 + c * 4 + e = a * 400 + b' * 100 + c' * 4 + 3 + 1 \<and>
    n = 146097 * a + 36524 * b' + 1461 * c' + 365 * 3 + 366 \<and> (c' \<noteq> 24 \<or> b' = 3)"
proof (cases "b = 4")
  case True
  then have "r1 = 0" using assms(1,2) lts(1) by linarith
  then have "c = 0" "e = 0" "r3 = 0" using assms(3,4) by auto
  then show ?thesis using True assms by (intro exI [of _ 3] exI [of _ 24]) simp
next
  case False
  then have e: "e = 4" and b: "b \<le> 3" using assms by linarith+
  then have "r3 = 0" "c \<le> 24" using assms(3,4) lts(2,3) by linarith+
  moreover have "c \<noteq> 24 \<or> b = 3" using assms(3,4) lts(2) e by linarith
  ultimately show ?thesis using assms(1-5) e b by (intro exI [of _ b] exI [of _ c]) simp
qed

lemma ord2ymd_correct:
  assumes "1 \<le> n"
  shows "ymd2ord (ord2ymd n) = n \<and> valid_date (ord2ymd n) \<and> 1 \<le> fst (ord2ymd n)"
proof -
  define a r b r1 c r2 e r3 where "a = (n - 1) div 146097" and "r = (n - 1) mod 146097"
    and "b = r div 36524" and "r1 = r mod 36524" and "c = r1 div 1461" and "r2 = r1 mod 1461"
    and "e = r2 div 365" and "r3 = r2 mod 365"
  note defs = a_def r_def b_def r1_def c_def r2_def e_def r3_def
  have eqs: "n - 1 = 146097 * a + r" "r = 36524 * b + r1" "r1 = 1461 * c + r2" "r2 = 365 * e + r3"
    by (simp_all add: defs)
  have lts: "r < 146097" "r1 < 36524" "r2 < 1461" "r3 < 365"
    by (simp_all add: defs)
  have "b \<le> 4" "c \<le> 24" "e \<le> 4" using eqs lts by linarith+
  define y where "y = a * 400 + b * 100 + c * 4 + e + 1"
  have o: "ord2ymd n = (if e = 4 \<or> b = 4 then (y - 1, 12, 31)
      else (case find_month (month_lengths (is_leap y)) r3 of (m, d) \<Rightarrow> (y, m, d)))"
    by (simp add: ord2ymd_def Let_def y_def defs)
  show ?thesis
  proof (cases "e = 4 \<or> b = 4")
    case False
    then have small: "b \<le> 3" "e \<le> 3" using \<open>b \<le> 4\<close> \<open>e \<le> 4\<close> by auto
    obtain m d where f: "find_month (month_lengths (is_leap y)) r3 = (m, d)"
      by (cases "find_month (month_lengths (is_leap y)) r3")
    have "r3 < sum_list (month_lengths (is_leap y))" using lts by (simp add: sum_month_lengths)
    note md = find_month_correct [OF this f]
    have "days_before_year y = 146097 * a + 36524 * b + 1461 * c + 365 * e"
      unfolding y_def by (rule year_parts(1) [OF small(1) \<open>c \<le> 24\<close> small(2)])
    then have "days_before_year y + r3 + 1 = n" using eqs assms by linarith
    with md show ?thesis
      using False o f by (auto simp: ymd2ord_def valid_date_def days_before_month_def days_in_month_def y_def)
  next
    case True
    have "y - 1 = a * 400 + b * 100 + c * 4 + e" by (simp add: y_def)
    with leap_day_parts [OF eqs assms lts(1-3) True]
    obtain b' c' where p: "b' \<le> 3" "c' \<le> 24" "y - 1 = a * 400 + b' * 100 + c' * 4 + 3 + 1"
        "n = 146097 * a + 36524 * b' + 1461 * c' + 365 * 3 + 366" "c' \<noteq> 24 \<or> b' = 3" by auto
    have "days_before_year (y - 1) = 146097 * a + 36524 * b' + 1461 * c' + 365 * 3"
      unfolding p(3) by (rule year_parts(1)) (use p in auto)
    moreover have "is_leap (y - 1)"
      unfolding p(3) using year_parts(2) [of b' c' 3 a] p by simp
    then have "days_before_month (y - 1) 12 = 335"
      by (simp add: days_before_month_def month_lengths_def)
    moreover have "days_in_month (y - 1) 12 = 31"
      by (simp add: days_in_month_def month_lengths_def)
    ultimately show ?thesis using True o p(3,4)
      by (simp add: ymd2ord_def valid_date_def)
  qed
qed

section \<open>\<^verbatim>\<open>strftime\<close>\<close>

record datetime =
  dt_date :: "nat \<times> nat \<times> nat"
  dt_hour :: nat
  dt_minute :: nat
  dt_second :: nat

text \<open>1970-01-01 is day 719163.\<close>

definition epoch_ordinal :: "int \<Rightarrow> nat" where
  "epoch_ordinal e = nat (e div 86400 + 719163)"

definition datetime_of_epoch :: "int \<Rightarrow> datetime" where
  "datetime_of_epoch e =
     (let s = nat (e mod 86400)
      in \<lparr>dt_date = ord2ymd (epoch_ordinal e), dt_hour = s div 3600,
          dt_minute = s mod 3600 div 60, dt_second = s mod 60\<rparr>)"

definition epoch_of_datetime :: "datetime \<Rightarrow> int" where
  "epoch_of_datetime t =
     (int (ymd2ord (dt_date t)) - 719163) * 86400
       + int (dt_hour t * 3600 + dt_minute t * 60 + dt_second t)"

text \<open>The C library prints a year without leading zeros.\<close>

definition strftime :: "datetime \<Rightarrow> string" where
  "strftime t = (case dt_date t of (y, m, d) \<Rightarrow>
     str_of_nat y @ ''-'' @ pad_nat 2 m @ ''-'' @ pad_nat 2 d @ ''T'' @ pad_nat 2 (dt_hour t)
       @ '':'' @ pad_nat 2 (dt_minute t) @ '':'' @ pad_nat 2 (dt_second t) @ ''Z'')"

definition format_ts :: "int \<Rightarrow> string" where
  "format_ts e = strftime (datetime_of_epoch e)"

section \<open>\<^verbatim>\<open>strptime\<close>\<close>

text \<open>
  The parser is a regular expression, without regard to case, in which the fields are digits
  (a day may have a leading blank) and the separators are not; so each field is what stands
  before the next separator.
\<close>

definition upto_char :: "char \<Rightarrow> string \<Rightarrow> (string \<times> string) option" where
  "upto_char c s =
     (case dropWhile (\<lambda>d. lower_char d \<noteq> c) s of
        [] \<Rightarrow> None
      | _ # rest \<Rightarrow> Some (takeWhile (\<lambda>d. lower_char d \<noteq> c) s, rest))"

definition field :: "nat \<Rightarrow> nat \<Rightarrow> string \<Rightarrow> bool" where
  "field lo hi w \<longleftrightarrow> (length w = 1 \<or> length w = 2) \<and> list_all is_digit w \<and>
     lo \<le> digits_val w \<and> digits_val w \<le> hi"

definition day_field :: "string \<Rightarrow> bool" where
  "day_field w \<longleftrightarrow> field 1 31 w \<or> (case w of [b, c] \<Rightarrow> b = CHR '' '' \<and> field 1 9 [c] | _ \<Rightarrow> False)"

definition day_val :: "string \<Rightarrow> nat" where
  "day_val w = digits_val (filter is_digit w)"

definition strptime :: "string \<Rightarrow> datetime option" where
  "strptime s =
     Option.bind (upto_char (CHR ''-'') s) (\<lambda>(yy, s1).
     Option.bind (upto_char (CHR ''-'') s1) (\<lambda>(mm, s2).
     Option.bind (upto_char (CHR ''t'') s2) (\<lambda>(dd, s3).
     Option.bind (upto_char (CHR '':'') s3) (\<lambda>(hh, s4).
     Option.bind (upto_char (CHR '':'') s4) (\<lambda>(mi, s5).
     Option.bind (upto_char (CHR ''z'') s5) (\<lambda>(ss, rest).
       let date = (digits_val yy, digits_val mm, day_val dd) in
       if rest = [] \<and> length yy = 4 \<and> list_all is_digit yy \<and> field 1 12 mm \<and> day_field dd
          \<and> field 0 23 hh \<and> field 0 59 mi \<and> field 0 61 ss
          \<and> 1 \<le> digits_val yy \<and> valid_date date \<and> digits_val ss \<le> 59
       then Some \<lparr>dt_date = date, dt_hour = digits_val hh, dt_minute = digits_val mi,
                  dt_second = digits_val ss\<rparr>
       else None))))))"

definition parse_ts :: "string \<Rightarrow> int option" where
  "parse_ts s = map_option epoch_of_datetime (strptime s)"

section \<open>The round trip\<close>

definition ts_valid :: "int \<Rightarrow> bool" where
  "ts_valid e \<longleftrightarrow> 1 \<le> epoch_ordinal e \<and>
     1000 \<le> fst (ord2ymd (epoch_ordinal e)) \<and> fst (ord2ymd (epoch_ordinal e)) \<le> 9999"

lemma epoch_datetime_inverse:
  assumes "1 \<le> epoch_ordinal e"
  shows "epoch_of_datetime (datetime_of_epoch e) = e"
proof -
  define s where "s = nat (e mod 86400)"
  have "s div 3600 * 3600 + s mod 3600 div 60 * 60 + s mod 60 = s"
  proof -
    have "s mod 3600 = s mod 3600 div 60 * 60 + s mod 3600 mod 60" by simp
    moreover have "s mod 3600 mod 60 = s mod 60" by (simp add: mod_mod_cancel)
    moreover have "s = s div 3600 * 3600 + s mod 3600" by simp
    ultimately show ?thesis by linarith
  qed
  then have "int (s div 3600 * 3600 + s mod 3600 div 60 * 60 + s mod 60) = e mod 86400"
    by (simp add: s_def)
  moreover have "int (ymd2ord (ord2ymd (epoch_ordinal e))) = e div 86400 + 719163"
    using ord2ymd_correct [OF assms] assms by (simp add: epoch_ordinal_def)
  ultimately show ?thesis
    by (simp only: epoch_of_datetime_def datetime_of_epoch_def Let_def datetime.simps flip: s_def)
       simp
qed

lemma length_str_of_nat4:
  assumes "1000 \<le> n" and "n \<le> 9999"
  shows "length (str_of_nat n) = 4"
proof -
  have "\<not> n < 10" "\<not> n div 10 < 10" "\<not> n div 10 div 10 < 10" "n div 10 div 10 div 10 < 10"
    using assms by (simp_all flip: div_mult2_eq)
  then show ?thesis
    by (simp add: str_of_nat.simps [of n] str_of_nat.simps [of "n div 10"]
        str_of_nat.simps [of "n div 10 div 10"] str_of_nat.simps [of "n div 10 div 10 div 10"])
qed

lemma is_digit_lower: "is_digit c \<Longrightarrow> lower_char c = c"
  by (simp add: lower_char_def is_digit_def Let_def)

lemma upto_char_digits:
  assumes "\<forall>d \<in> set w. is_digit d" and "lower_char c = k" and "\<not> is_digit k"
  shows "upto_char k (w @ c # rest) = Some (w, rest)"
proof -
  have "\<forall>d \<in> set w. lower_char d \<noteq> k" using assms is_digit_lower by metis
  then have "dropWhile (\<lambda>d. lower_char d \<noteq> k) (w @ c # rest) = c # rest"
    and "takeWhile (\<lambda>d. lower_char d \<noteq> k) (w @ c # rest) = w"
    using assms(2) by (simp_all add: takeWhile_append2 dropWhile_append2)
  then show ?thesis by (simp add: upto_char_def)
qed

lemma field_pad: "lo \<le> n \<Longrightarrow> n \<le> hi \<Longrightarrow> n < 100 \<Longrightarrow> field lo hi (pad_nat 2 n)"
  by (simp add: field_def list_all_iff pad_nat_digits digits_val_pad_nat)

lemma day_val_pad: "n < 100 \<Longrightarrow> day_val (pad_nat 2 n) = n"
proof -
  have "filter is_digit (pad_nat 2 n) = pad_nat 2 n" using pad_nat_digits by simp
  then show "n < 100 \<Longrightarrow> day_val (pad_nat 2 n) = n" by (simp add: day_val_def digits_val_pad_nat)
qed

lemma seps_not_digits: "\<not> is_digit (CHR ''-'')" "\<not> is_digit (CHR ''t'')" "\<not> is_digit (CHR '':'')"
  "\<not> is_digit (CHR ''z'')"
  by (simp_all add: is_digit_def)

lemma seps_lower: "lower_char (CHR ''-'') = CHR ''-''" "lower_char (CHR ''T'') = CHR ''t''"
  "lower_char (CHR '':'') = CHR '':''" "lower_char (CHR ''Z'') = CHR ''z''"
  by code_simp+

lemma days_in_month_le: "1 \<le> m \<Longrightarrow> m \<le> 12 \<Longrightarrow> days_in_month y m \<le> 31"
proof -
  assume "1 \<le> m" "m \<le> 12"
  then have "days_in_month y m \<in> set (month_lengths (is_leap y))"
    by (simp add: days_in_month_def)
  then show ?thesis by (auto simp: month_lengths_def split: if_splits)
qed

text \<open>What \<^verbatim>\<open>strftime\<close> prints, \<^verbatim>\<open>strptime\<close> reads back.\<close>

lemma strptime_strftime:
  assumes "dt_date t = (y, m, d)" and "1000 \<le> y" "y \<le> 9999" and "valid_date (y, m, d)"
    and "dt_hour t \<le> 23" "dt_minute t \<le> 59" "dt_second t \<le> 59"
  shows "strptime (strftime t) = Some t"
proof -
  have md: "1 \<le> m" "m \<le> 12" "1 \<le> d" "d \<le> 31"
    using assms(4) days_in_month_le [of m y] by (auto simp: valid_date_def)
  let ?p = "pad_nat 2"
  have yy: "length (str_of_nat y) = 4" "\<forall>c \<in> set (str_of_nat y). is_digit c"
    using length_str_of_nat4 assms(2,3) str_of_nat_digits by auto
  note up = upto_char_digits [OF yy(2)] upto_char_digits [OF pad_nat_digits]
  have "strftime t = str_of_nat y @ CHR ''-'' # ?p m @ CHR ''-'' # ?p d @ CHR ''T'' # ?p (dt_hour t)
      @ CHR '':'' # ?p (dt_minute t) @ CHR '':'' # ?p (dt_second t) @ CHR ''Z'' # []"
    using assms(1) by (simp add: strftime_def)
  then show ?thesis
    using assms md yy
    by (simp add: strptime_def up seps_not_digits seps_lower field_pad digits_val_pad_nat
        day_val_pad day_field_def list_all_iff del: pad_nat.simps)
qed

lemma datetime_bounds:
  "dt_hour (datetime_of_epoch e) \<le> 23" "dt_minute (datetime_of_epoch e) \<le> 59"
  "dt_second (datetime_of_epoch e) \<le> 59"
proof -
  define s where "s = nat (e mod 86400)"
  have "s < 86400" unfolding s_def by (simp add: nat_less_iff)
  then have "s div 3600 < 24" by (simp add: less_mult_imp_div_less)
  moreover have "s mod 3600 div 60 < 60" by (simp add: less_mult_imp_div_less)
  ultimately show "dt_hour (datetime_of_epoch e) \<le> 23" "dt_minute (datetime_of_epoch e) \<le> 59"
    "dt_second (datetime_of_epoch e) \<le> 59"
    by (simp_all add: datetime_of_epoch_def Let_def flip: s_def)
qed

lemma parse_format_ts:
  assumes "ts_valid e"
  shows "parse_ts (format_ts e) = Some e"
proof -
  obtain y m d where ymd: "ord2ymd (epoch_ordinal e) = (y, m, d)"
    by (cases "ord2ymd (epoch_ordinal e)")
  then have date: "dt_date (datetime_of_epoch e) = (y, m, d)"
    by (simp add: datetime_of_epoch_def Let_def)
  have "valid_date (y, m, d)" "1000 \<le> y" "y \<le> 9999" "1 \<le> epoch_ordinal e"
    using assms ord2ymd_correct [of "epoch_ordinal e"] ymd by (auto simp: ts_valid_def)
  then show ?thesis
    using strptime_strftime [OF date] datetime_bounds [of e] epoch_datetime_inverse [of e]
    by (simp add: parse_ts_def format_ts_def)
qed

interpretation timestamps: codec format_ts parse_ts ts_valid
  by unfold_locales (rule parse_format_ts)

section \<open>Property\<close>

text \<open>
  C33: Time stamps survive the way through a note. Every point in time from the year 1000 to the year 9999, in whole
  seconds, is printed by the package in a form that it reads back as the same second, and no two seconds are
  printed alike.
\<close>

theorem timestamp_roundtrip:
  assumes "ts_valid e"
  shows "parse_ts (format_ts e) = Some e \<and> (\<forall>d. ts_valid d \<and> format_ts d = format_ts e \<longrightarrow> d = e)"
  using timestamps.dec_enc [OF assms] timestamps.enc_inject assms by blast

theorem timestamp_roundtrip_witness: "parse_ts (format_ts 951782400) = Some 951782400"
proof -
  have "ord2ymd 730179 = (2000, 2, 29)" by (simp add: ord2ymd_def is_leap_def month_lengths_def)
  then have "ts_valid 951782400" by (simp add: ts_valid_def epoch_ordinal_def)
  with timestamp_roundtrip show ?thesis by blast
qed

end
