(* ===== verification/Stamping.thy ===== *)
theory Stamping
  imports Scripted PyTime
begin

text \<open>
  \<^verbatim>\<open>stamping.py\<close>: the \<^verbatim>\<open>created\<close> and \<^verbatim>\<open>modified\<close> lines of a note's frontmatter. The YAML library is a
  parameter: a parser, a printer, and the two operations the module uses on what it parsed.
\<close>

section \<open>Frontmatter\<close>

definition FM_DELIM :: string where
  "FM_DELIM = ''---'' @ [newline]"

definition split_frontmatter :: "string \<Rightarrow> string option \<times> string" where
  "split_frontmatter text =
     (if \<not> startswith text FM_DELIM then (None, text)
      else (case find_from text (newline # FM_DELIM) (length FM_DELIM - 1) of
              None \<Rightarrow> (None, text)
            | Some e \<Rightarrow>
                (Some (drop (length FM_DELIM) (take (e + 1) text)),
                 drop (e + 1 + length FM_DELIM) text)))"

text \<open>
  \<^verbatim>\<open>TS_PATTERN.sub(r"\1: \2", text)\<close>: a whole line that is one of the two keys with a quoted time
  stamp loses the quotes.
\<close>

definition ts_shape :: "string \<Rightarrow> bool" where
  "ts_shape s = list_all2 (\<lambda>p c. if p = CHR ''0'' then is_digit c else c = p) ''0000-00-00T00:00:00Z'' s"

definition unquote_key :: "string \<Rightarrow> string \<Rightarrow> string option" where
  "unquote_key key l =
     (let pre = key @ '': '' @ [single_quote]; rest = drop (length pre) l in
      if startswith l pre \<and> rest \<noteq> [] \<and> last rest = single_quote \<and> ts_shape (butlast rest)
      then Some (key @ '': '' @ butlast rest) else None)"

definition unquote_line :: "string \<Rightarrow> string" where
  "unquote_line l =
     (case unquote_key ''created'' l of
        Some l' \<Rightarrow> l'
      | None \<Rightarrow> (case unquote_key ''modified'' l of Some l' \<Rightarrow> l' | None \<Rightarrow> l))"

definition unquote_stamps :: "string \<Rightarrow> string" where
  "unquote_stamps text = join [newline] (map unquote_line (split_on newline text))"

section \<open>The YAML library\<close>

text \<open>
  \<open>y_load\<close> gives \<open>None\<close> for an empty document; \<open>y_get\<close> gives the truth value and the \<^verbatim>\<open>str\<close> of an
  entry (\<^verbatim>\<open>False\<close> and \<^verbatim>\<open>None\<close> for a key that is not there) and raises when the document is not a
  mapping.
\<close>

record 'd yaml =
  y_load :: "string \<Rightarrow> exn + 'd option"
  y_empty :: 'd
  y_get :: "'d \<Rightarrow> string \<Rightarrow> exn + bool \<times> string"
  y_set :: "'d \<Rightarrow> string \<Rightarrow> string \<Rightarrow> exn + 'd"
  y_dump :: "'d \<Rightarrow> exn + string"

section \<open>Stamping one note\<close>

definition modified_epoch :: "'d yaml \<Rightarrow> 'd \<Rightarrow> exn + int option" where
  "modified_epoch y data =
     (case y_get y data ''modified'' of
        Inl e \<Rightarrow> Inl e
      | Inr (truthy, raw) \<Rightarrow> Inr (if \<not> truthy then None else parse_ts raw))"

definition now_utc :: "'w env \<Rightarrow> (('w, 'z) io_scheme, string) prog" where
  "now_utc env = seq (sys (x_utcnow env)) (\<lambda>e. ret (format_ts e))"

definition set_stamps :: "'d yaml \<Rightarrow> string \<Rightarrow> 'd \<Rightarrow> exn + 'd" where
  "set_stamps y ts data =
     (case y_get y data ''created'' of
        Inl e \<Rightarrow> Inl e
      | Inr (truthy, raw) \<Rightarrow>
          (case (if truthy then Inr data else y_set y data ''created'' ts) of
             Inl e \<Rightarrow> Inl e
           | Inr data' \<Rightarrow> y_set y data' ''modified'' ts))"

text \<open>\<^verbatim>\<open>path.write_text(text, encoding="utf-8")\<close>\<close>

definition write_text :: "'w env \<Rightarrow> path \<Rightarrow> string \<Rightarrow> (('w, 'z) io_scheme, unit) prog" where
  "write_text env p t = andthen (emit (EWrite p t)) (sys_try (x_write env p t))"

definition restamp ::
  "'w env \<Rightarrow> 'd yaml \<Rightarrow> path \<Rightarrow> string \<Rightarrow> string \<Rightarrow> 'd \<Rightarrow> (('w, 'z) io_scheme, bool) prog" where
  "restamp env y p original body data =
     seq (now_utc env) (\<lambda>ts.
     seq (of_sum (set_stamps y ts data)) (\<lambda>data'.
     seq (of_sum (y_dump y data')) (\<lambda>out.
       let new = FM_DELIM @ unquote_stamps out @ FM_DELIM @ body in
       if new \<noteq> original then andthen (write_text env p new) (ret True) else ret False)))"

definition stamp_body :: "'w env \<Rightarrow> 'd yaml \<Rightarrow> path \<Rightarrow> (('w, 'z) io_scheme, bool) prog" where
  "stamp_body env y p =
     seq (sys (x_is_file env p)) (\<lambda>is_file.
       if \<not> is_file \<or> lower (suffix p) \<noteq> ''.md'' then ret False
       else seq (read_text env p) (\<lambda>original.
         case split_frontmatter original of (fm_text, body) \<Rightarrow>
           seq (of_sum (case fm_text of None \<Rightarrow> Inr None | Some fm \<Rightarrow> y_load y fm)) (\<lambda>loaded.
             let data = (case loaded of None \<Rightarrow> y_empty y | Some d \<Rightarrow> d) in
             seq (sys_try (x_mtime env p)) (\<lambda>mtime.
             seq (of_sum (int_of_float mtime)) (\<lambda>mtime_floor.
             seq (of_sum (modified_epoch y data)) (\<lambda>modified.
               if (case modified of None \<Rightarrow> False | Some m \<Rightarrow> mtime_floor \<le> m) then ret False
               else restamp env y p original body data))))))"

definition stamp :: "'w env \<Rightarrow> 'd yaml \<Rightarrow> path \<Rightarrow> (('w, 'z) io_scheme, bool) prog" where
  "stamp env y p =
     attempt (stamp_body env y p)
       (\<lambda>e. Some (andthen (log Exception (MStampFailed p)) (ret False)))"

definition stamp_one :: "'w env \<Rightarrow> 'd yaml \<Rightarrow> path \<Rightarrow> (('w, 'z) io_scheme, unit) prog" where
  "stamp_one env y p = seq (stamp env y p) (\<lambda>_. ret ())"

definition stamp_paths :: "'w env \<Rightarrow> 'd yaml \<Rightarrow> path list \<Rightarrow> (('w, 'z) io_scheme, unit) prog" where
  "stamp_paths env y ps = foreach ps (stamp_one env y)"

section \<open>Splitting and joining\<close>

text \<open>
  A block of frontmatter: nothing, or whole lines, none of which looks like the closing
  delimiter.
\<close>

definition fm_block :: "string \<Rightarrow> bool" where
  "fm_block f \<longleftrightarrow> (f = [] \<or> last f = newline) \<and> find_sub (newline # FM_DELIM) (newline # f) = None"

lemma startswith_append [simp]: "startswith (p @ s) p"
  by (simp add: startswith_def)

lemma delim_shape: "newline # FM_DELIM = [newline, CHR ''-'', CHR ''-'', CHR ''-'', newline]"
  by (simp add: FM_DELIM_def)

lemma startswith_delim: "startswith s (newline # FM_DELIM) \<longleftrightarrow> take 5 s = newline # FM_DELIM"
  by (simp add: startswith_def delim_shape numeral_eq_Suc)

lemma find_delim:
  assumes "fm_block f"
  shows "find_sub (newline # FM_DELIM) (newline # f @ FM_DELIM @ b) = Some (length f)"
proof (rule find_subI)
  have last_nl: "(newline # f) ! length f = newline"
    using assms by (cases f rule: rev_cases) (auto simp: fm_block_def nth_append)
  have drop_f: "drop (length f) (newline # f) = [newline]"
    using last_nl by (metis Cons_nth_drop_Suc drop_all length_Cons lessI order_refl)
  have "drop (length f) (newline # f @ FM_DELIM @ b) = drop (length f) ((newline # f) @ FM_DELIM @ b)"
    by simp
  also have "\<dots> = newline # FM_DELIM @ b"
    by (simp only: drop_append drop_f) simp
  finally show "startswith (drop (length f) (newline # f @ FM_DELIM @ b)) (newline # FM_DELIM)"
    by (simp add: startswith_def)
  show "length f \<le> length (newline # f @ FM_DELIM @ b)" by simp
  fix j assume j: "j < length f"
  show "\<not> startswith (drop j (newline # f @ FM_DELIM @ b)) (newline # FM_DELIM)"
  proof (cases "j + 5 \<le> length f + 1")
    case True
    have "\<not> startswith (drop j (newline # f)) (newline # FM_DELIM)"
      using assms find_sub_None unfolding fm_block_def by blast
    moreover have "take 5 (drop j ((newline # f) @ FM_DELIM @ b)) = take 5 (drop j (newline # f))"
      using True j by (simp only: drop_append take_append) simp
    ultimately show ?thesis by (simp add: startswith_delim)
  next
    case False
    show ?thesis
    proof
      assume "startswith (drop j (newline # f @ FM_DELIM @ b)) (newline # FM_DELIM)"
      then have eq: "take 5 (drop j ((newline # f) @ FM_DELIM @ b)) = newline # FM_DELIM"
        by (simp add: startswith_delim)
      define i where "i = length f - j"
      have i: "0 < i" "i < 4" "j + i = length f" using False j by (auto simp: i_def)
      have "take 5 (drop j ((newline # f) @ FM_DELIM @ b)) ! i = ((newline # f) @ FM_DELIM @ b) ! (j + i)"
        using i by (simp add: nth_take nth_drop)
      also have "\<dots> = newline" using last_nl i(3) by (simp only: nth_append) simp
      finally have "(newline # FM_DELIM) ! i = newline" by (simp only: eq)
      moreover have "i = 1 \<or> i = 2 \<or> i = 3" using i(1,2) by linarith
      ultimately show False by (auto simp: delim_shape numeral_2_eq_2 numeral_3_eq_3)
    qed
  qed
qed

lemma split_join_frontmatter:
  assumes "fm_block f"
  shows "split_frontmatter (FM_DELIM @ f @ FM_DELIM @ b) = (Some f, b)"
proof -
  let ?t = "FM_DELIM @ f @ FM_DELIM @ b"
  have l: "length FM_DELIM = 4" by (simp add: FM_DELIM_def)
  have "drop 3 ?t = newline # f @ FM_DELIM @ b" by (simp add: FM_DELIM_def)
  then have "find_from ?t (newline # FM_DELIM) 3 = Some (length f + 3)"
    using find_delim [OF assms, of b] l by (simp add: find_from_def)
  then show ?thesis by (simp add: split_frontmatter_def l)
qed

lemma split_frontmatter_parts:
  assumes "split_frontmatter t = (Some f, b)"
  shows "t = FM_DELIM @ f @ FM_DELIM @ b"
proof -
  have l: "length FM_DELIM = 4" by (simp add: FM_DELIM_def)
  obtain e where start: "startswith t FM_DELIM" and e: "find_from t (newline # FM_DELIM) 3 = Some e"
    and fb: "f = drop 4 (take (e + 1) t)" "b = drop (e + 1 + 4) t"
    using assms by (auto simp: split_frontmatter_def l split: if_splits option.splits)
  then obtain i where i: "e = i + 3" "find_sub (newline # FM_DELIM) (drop 3 t) = Some i"
    by (auto simp: find_from_def split: if_splits)
  obtain u where u: "drop e t = newline # FM_DELIM @ u"
    using find_sub_Some [OF i(2)] i(1) by (auto simp: startswith_iff add.commute)
  have tail: "drop (e + 1) t = FM_DELIM @ u"
    using u by (metis add.commute drop_drop drop_Suc_Cons drop0 plus_1_eq_Suc)
  then have "b = u" using fb(2) l by (metis append_eq_conv_conj drop_drop add.commute)
  have "take 4 (take (e + 1) t) = FM_DELIM"
    using start i(1) by (simp add: startswith_def l min_def)
  then have "take (e + 1) t = FM_DELIM @ f"
    using fb(1) by (metis append_take_drop_id)
  then show ?thesis
    using tail \<open>b = u\<close> by (metis append.assoc append_take_drop_id)
qed

text \<open>What \<^verbatim>\<open>split\<close> returns as the body is a suffix of the note in every case.\<close>

lemma split_frontmatter_None: "split_frontmatter t = (None, b) \<Longrightarrow> b = t"
  by (auto simp: split_frontmatter_def split: if_splits option.splits)

section \<open>Stamping is fail-soft\<close>

lemma stamp_never_raises: "never_raises (stamp env y p)"
  by (auto simp: stamp_def never_raises_def attempt_def andthen_def seq_def emit_def ret_def
      split: prod.split sum.split)

lemma stamp_one_never_raises: "never_raises (stamp_one env y p)"
  unfolding stamp_one_def by (rule never_raises_seq [OF stamp_never_raises]) simp

interpretation stamper: fail_soft "stamp_one env y" for env y
  by unfold_locales (rule stamp_one_never_raises)

lemma stamp_paths_never_raises: "never_raises (stamp_paths env y ps)"
  unfolding stamp_paths_def by (rule stamper.foreach_soft)

section \<open>What stamping writes\<close>

definition stamp_effect :: "path \<Rightarrow> effect \<Rightarrow> bool" where
  "stamp_effect p e \<longleftrightarrow>
     (lower (suffix p) = ''.md'' \<and> (\<exists>t. e = EWrite p (FM_DELIM @ t))) \<or> e = ELog Exception (MStampFailed p)"

lemma write_text_grows:
  "P (EWrite p t) \<Longrightarrow> grows P (write_text env p t)"
  unfolding write_text_def by (intro grow_intros)

lemma restamp_grows:
  assumes "lower (suffix p) = ''.md''"
  shows "grows (stamp_effect p) (restamp env y p original body data)"
  unfolding restamp_def Let_def now_utc_def
  by (auto intro!: grow_intros write_text_grows simp: stamp_effect_def assms)

lemma stamp_grows: "grows (stamp_effect p) (stamp env y p)"
proof -
  have "grows (stamp_effect p) (stamp_body env y p)"
  proof (cases "lower (suffix p) = ''.md''")
    case True
    then show ?thesis
      unfolding stamp_body_def
      by (auto intro!: grow_intros simp: Let_def restamp_grows split: prod.split)
  next
    case False
    then show ?thesis unfolding stamp_body_def by (auto intro!: grow_intros)
  qed
  then show ?thesis
    unfolding stamp_def by (auto intro!: grow_intros simp: stamp_effect_def)
qed

lemma stamp_paths_grows: "grows (\<lambda>e. \<exists>p \<in> set ps. stamp_effect p e) (stamp_paths env y ps)"
proof -
  have "grows (stamp_effect p) (stamp_one env y p)" for p
    unfolding stamp_one_def by (intro grow_intros stamp_grows)
  then show ?thesis
    unfolding stamp_paths_def by (intro grows_foreach) (blast intro: grows_mono)
qed

text \<open>
  One run: nothing is written and \<^verbatim>\<open>True\<close> is not returned, or the note is written once, with new
  frontmatter before the body that was read, and \<^verbatim>\<open>False\<close> is not returned.
\<close>

definition written_by_stamp :: "'w env \<Rightarrow> path \<Rightarrow> effect \<Rightarrow> bool" where
  "written_by_stamp env p e \<longleftrightarrow>
     (\<exists>w raw w' fm. x_read env p w = (Inr raw, w') \<and>
        e = EWrite p (FM_DELIM @ fm @ FM_DELIM @ snd (split_frontmatter (universal_newlines raw))))"

definition stamp_outcome ::
  "'w env \<Rightarrow> path \<Rightarrow> ('w, 'z) io_scheme \<Rightarrow> exn + bool \<Rightarrow> ('w, 'z) io_scheme \<Rightarrow> bool" where
  "stamp_outcome env p s r s' \<longleftrightarrow>
     (trace s' = trace s \<and> r \<noteq> Inr True) \<or>
     (lower (suffix p) = ''.md'' \<and> (\<exists>e. written_by_stamp env p e \<and> trace s' = trace s @ [e]) \<and> r \<noteq> Inr False)"

lemma restamp_outcome:
  assumes "restamp env y p original body data s1 = (r, s')" and "trace s1 = trace s"
    and "x_read env p w = (Inr raw, w')" and "split_frontmatter (universal_newlines raw) = (fm, body)"
    and "lower (suffix p) = ''.md''"
  shows "stamp_outcome env p s r s'"
proof -
  have "(trace s' = trace s1 \<and> r \<noteq> Inr True) \<or>
    (\<exists>fm. trace s' = trace s1 @ [EWrite p (FM_DELIM @ fm @ FM_DELIM @ body)] \<and> r \<noteq> Inr False)"
    using assms(1)
    by (auto simp: restamp_def now_utc_def seq_def sys_def write_text_def andthen_def emit_def sys_try_def
        Let_def ret_def split: prod.splits sum.splits if_splits)
  then show ?thesis
    using assms(2-) unfolding stamp_outcome_def written_by_stamp_def by (metis snd_conv)
qed

lemma silent_outcome: "trace s' = trace s \<Longrightarrow> r \<noteq> Inr True \<Longrightarrow> stamp_outcome env p s r s'"
  by (simp add: stamp_outcome_def)

lemma stamp_body_outcome:
  assumes "stamp_body env y p s = (r, s')"
  shows "stamp_outcome env p s r s'"
    using assms
    by (auto simp: stamp_body_def read_text_def seq_def sys_def sys_try_def Let_def 
        split: prod.splits sum.splits if_splits intro: silent_outcome restamp_outcome)

section \<open>Properties\<close>

text \<open>
  C31: The frontmatter of a note is taken apart without loss. A note that is built from a block
  of whole lines, none of which is the delimiter, and any body is split into exactly that block
  and that body; and whenever a block is found, the delimiters, the block and the body make up the
  note again, character by character.
\<close>

theorem frontmatter_roundtrip:
  "(fm_block f \<longrightarrow> split_frontmatter (FM_DELIM @ f @ FM_DELIM @ b) = (Some f, b)) \<and>
   (split_frontmatter t = (Some f, b) \<longrightarrow> t = FM_DELIM @ f @ FM_DELIM @ b)"
  using split_join_frontmatter split_frontmatter_parts by blast

theorem frontmatter_roundtrip_witness:
  "split_frontmatter (FM_DELIM @ (''a: 1'' @ [newline]) @ FM_DELIM @ ''text'') =
     (Some (''a: 1'' @ [newline]), ''text'')"
proof -
  have "fm_block (''a: 1'' @ [newline])" by code_simp
  then show ?thesis using frontmatter_roundtrip [of "''a: 1'' @ [newline]" "''text''"] by blast
qed

text \<open>
  C21: Stamping one note never raises and touches nothing but that note. It returns \<^verbatim>\<open>True\<close> exactly when it has
  written the note, once, and then the note is a \<^verbatim>\<open>.md\<close> file and the new content ends with the very body
  that was read; when it returns \<^verbatim>\<open>False\<close> it has done nothing, or it has logged that stamping failed,
  possibly after a write that failed.
\<close>

theorem stamp_contained:
  assumes "stamp env y p s = (r, s')"
  shows "(r = Inr True \<and> lower (suffix p) = ''.md'' \<and>
          (\<exists>e. written_by_stamp env p e \<and> new_effects s s' = [e])) \<or>
    (r = Inr False \<and>
       (new_effects s s' = [] \<or> new_effects s s' = [ELog Exception (MStampFailed p)] \<or>
        (\<exists>e. written_by_stamp env p e \<and> new_effects s s' = [e, ELog Exception (MStampFailed p)])))"
proof -
  obtain r1 s1 where body: "stamp_body env y p s = (r1, s1)" by (cases "stamp_body env y p s")
  note out = stamp_body_outcome [OF body, unfolded stamp_outcome_def]
  show ?thesis
  proof (cases r1)
    case (Inl e)
    then have "r = Inr False" "trace s' = trace s1 @ [ELog Exception (MStampFailed p)]"
      using assms body by (auto simp: stamp_def attempt_def andthen_def seq_def emit_def ret_def)
    with out Inl show ?thesis by (auto simp: new_effects_def)
  next
    case (Inr b)
    then have "r = Inr b" "s' = s1"
      using assms body by (auto simp: stamp_def attempt_def)
    with out Inr show ?thesis by (cases b) (auto simp: new_effects_def)
  qed
qed

text \<open>
  C20: The gate. For a note whose frontmatter carries a \<^verbatim>\<open>modified\<close> stamp in the Linter form, what decides
  is the modification time of the file in whole seconds. While it is not later than the stamp, the note
  is left alone, so that stamping again, or a stamp the client supplied, changes nothing; one second
  later the note is written again, with the new stamps and its old body.
\<close>

theorem stamp_gate:
  assumes "x_is_file env p (world s) = (True, w1)" and "lower (suffix p) = ''.md''"
    and "x_read env p w1 = (Inr raw, w2)"
    and "universal_newlines raw = FM_DELIM @ fm @ FM_DELIM @ body" and "fm_block fm"
    and "y_load y fm = Inr (Some d)" and "x_mtime env p w2 = (Inr (Fin m), w3)"
    and "y_get y d ''modified'' = Inr (True, format_ts e)" and "ts_valid e"
    and "x_utcnow env w3 = (now, w4)" and "set_stamps y (format_ts now) d = Inr d'"
    and "y_dump y d' = Inr out" and "unquote_stamps out \<noteq> fm"
  shows "(trunc_rat m \<le> e \<longrightarrow> stamp env y p s = (Inr False, s\<lparr>world := w3\<rparr>)) \<and>
    (e < trunc_rat m \<longrightarrow>
       new_effects s (snd (stamp env y p s)) \<noteq> [] \<and>
       hd (new_effects s (snd (stamp env y p s))) = EWrite p (FM_DELIM @ unquote_stamps out @ FM_DELIM @ body))"
proof -
  have m: "modified_epoch y d = Inr (Some e)"
    using assms(8) parse_format_ts [OF assms(9)] by (simp add: modified_epoch_def)
  note split = split_join_frontmatter [OF assms(5), of body]
  note head = stamp_def attempt_def stamp_body_def seq_def sys_def read_text_def sys_try_def ret_def
  have "stamp env y p s = (Inr False, s\<lparr>world := w3\<rparr>)" if "trunc_rat m \<le> e"
    using that by (simp add: head assms(1-4,6,7) split m)
  moreover have "hd (new_effects s (snd (stamp env y p s))) = EWrite p (FM_DELIM @ unquote_stamps out @ FM_DELIM @ body)
      \<and> new_effects s (snd (stamp env y p s)) \<noteq> []" if "e < trunc_rat m"
    using that assms(13)
    by (simp add: head assms(1-4,6,7,10-12) split m restamp_def now_utc_def write_text_def andthen_def
        emit_def new_effects_def split: prod.split sum.split)
  ultimately show ?thesis by blast
qed

section \<open>Examples\<close>

text \<open>A small YAML library for examples: one \<^verbatim>\<open>key: value\<close> per line, time stamps printed in quotes.\<close>

definition line_yaml :: "(string \<times> string) list yaml" where
  "line_yaml =
     \<lparr>y_load = (\<lambda>t. Inr (Some (map (\<lambda>l. case partition_at (CHR '':'') l of (k, _, v) \<Rightarrow> (k, strip v))
        (filter (\<lambda>l. l \<noteq> []) (split_on newline t))))),
      y_empty = [],
      y_get = (\<lambda>d k. Inr (case map_of d k of None \<Rightarrow> (False, ''None'') | Some v \<Rightarrow> (v \<noteq> [], v))),
      y_set = (\<lambda>d k v. Inr (filter (\<lambda>(j, _). j \<noteq> k) d @ [(k, v)])),
      y_dump = (\<lambda>d. Inr (concat (map (\<lambda>(k, v).
         k @ '': '' @ (if ts_shape v then [single_quote] @ v @ [single_quote] else v) @ [newline]) d)))\<rparr>"

definition example_note :: path where
  "example_note = path_of ''/v/n.md''"

definition example_fm :: string where
  "example_fm = ''modified: 1970-01-01T00:00:00Z'' @ [newline]"

definition example_text :: string where
  "example_text = FM_DELIM @ example_fm @ FM_DELIM @ ''hi''"

definition note_world :: script where
  "note_world = script0\<lparr>sc_files := [(example_note, example_text, Fin (1 / 2))], sc_utc := 100\<rparr>"

lemma example_facts: "lower (suffix example_note) = ''.md''" 
  "universal_newlines example_text = example_text" "fm_block example_fm"
  by code_simp+
lemma example_load: "y_load line_yaml example_fm = Inr (Some [(''modified'', ''1970-01-01T00:00:00Z'')])"
  by code_simp
lemma example_date: "find_month (month_lengths (is_leap 1970)) 0 = (1, 1)"
  by (simp add: month_lengths_def)

lemma example_fields: "str_of_nat 1970 = ''1970''" "pad_nat 2 0 = ''00''" "pad_nat 2 1 = ''01''"
  "pad_nat 2 40 = ''40''"
  by code_simp+

lemmas example_ts_eval =
  format_ts_def datetime_of_epoch_def epoch_ordinal_def ord2ymd_def strftime_def Let_def
  example_date example_fields

lemma example_stamp_0: "format_ts 0 = ''1970-01-01T00:00:00Z''" "ts_valid 0"
  using example_fields(3) by (simp_all add: example_ts_eval ts_valid_def)

lemma example_stamp_100: "format_ts 100 = ''1970-01-01T00:01:40Z''"
  using example_fields(3) by (simp add: example_ts_eval)

lemma example_set: "set_stamps line_yaml ''1970-01-01T00:01:40Z'' [(''modified'', ''1970-01-01T00:00:00Z'')] =
    Inr [(''created'', ''1970-01-01T00:01:40Z''), (''modified'', ''1970-01-01T00:01:40Z'')]"
  by code_simp

lemma example_dump: "y_dump line_yaml [(''created'', ''1970-01-01T00:01:40Z''), (''modified'', ''1970-01-01T00:01:40Z'')] =
    Inr (''created: '' @ [single_quote] @ ''1970-01-01T00:01:40Z'' @ [single_quote, newline] @
         ''modified: '' @ [single_quote] @ ''1970-01-01T00:01:40Z'' @ [single_quote, newline])"
  by code_simp

lemma example_unquoted: 
  "unquote_stamps (''created: '' @ [single_quote] @ ''1970-01-01T00:01:40Z'' @ [single_quote, newline] @
         ''modified: '' @ [single_quote] @ ''1970-01-01T00:01:40Z'' @ [single_quote, newline]) =
   ''created: 1970-01-01T00:01:40Z'' @ [newline] @ ''modified: 1970-01-01T00:01:40Z'' @ [newline]"
  by code_simp

theorem stamp_gate_witness:
  "stamp script_env line_yaml example_note \<lparr>world = note_world, trace = []\<rparr> =
     (Inr False, \<lparr>world = note_world, trace = []\<rparr>)"
proof -
  let ?s = "\<lparr>world = note_world, trace = []\<rparr>"
  have w: "x_is_file script_env example_note (world ?s) = (True, note_world)"
    "x_read script_env example_note note_world = (Inr example_text, note_world)"
    "x_mtime script_env example_note note_world = (Inr (Fin (1 / 2)), note_world)"
    "x_utcnow script_env note_world = (100, note_world)"
    by (simp_all add: script_env_def note_world_def)
  have content: "universal_newlines example_text = FM_DELIM @ example_fm @ FM_DELIM @ ''hi''"
    using example_facts(2) by (simp add: example_text_def)
  have get: "y_get line_yaml [(''modified'', ''1970-01-01T00:00:00Z'')] ''modified'' = Inr (True, format_ts 0)"
    by (simp add: line_yaml_def example_stamp_0)
  have set: "set_stamps line_yaml (format_ts 100) [(''modified'', ''1970-01-01T00:00:00Z'')] =
      Inr [(''created'', ''1970-01-01T00:01:40Z''), (''modified'', ''1970-01-01T00:01:40Z'')]"
    using example_set by (simp only: example_stamp_100)
  have "trunc_rat (1 / 2) = 0" by code_simp
  then show ?thesis
    using stamp_gate [OF w(1) example_facts(1) w(2) content example_facts(3) example_load w(3) get
        example_stamp_0(2) w(4) set example_dump]
    unfolding example_unquoted by (simp add: example_fm_def)
qed

theorem stamp_contained_witness:
  "\<exists>r s'. stamp script_env line_yaml example_note \<lparr>world = note_world, trace = []\<rparr> = (r, s') \<and>
     (\<exists>b. r = Inr b \<and> length (new_effects \<lparr>world = note_world, trace = []\<rparr> s') \<le> 2)"
proof -
  let ?s = "\<lparr>world = note_world, trace = []\<rparr>"
  obtain r s' where run: "stamp script_env line_yaml example_note ?s = (r, s')"
    by (cases "stamp script_env line_yaml example_note ?s")
  from stamp_contained [OF run] have "\<exists>b. r = Inr b \<and> length (new_effects ?s s') \<le> 2" by auto
  with run show ?thesis by blast
qed

end
