(* ===== verification/Credential.thy ===== *)
theory Credential
  imports SysIO
begin

text \<open>
  \<^verbatim>\<open>credential_helper.py\<close>: the program git asks for the credential of the remote. Its input is the
  action git names and the token of the environment; its output is what it writes.
\<close>

definition HELPER_NAME :: string where
  "HELPER_NAME = ''obsidian-env''"

definition USERNAME :: string where
  "USERNAME = ''x-access-token''"

text \<open>\<open>argv = None\<close> takes the arguments of the process, without the program's name.\<close>

definition credential_main ::
  "string list \<Rightarrow> (string \<Rightarrow> string option) \<Rightarrow> string list option \<Rightarrow> (('w, 'z) io_scheme, int) prog" where
  "credential_main sys_argv environ argv =
     (let args = (case argv of None \<Rightarrow> tl sys_argv | Some a \<Rightarrow> a);
          action = (case args of [] \<Rightarrow> '''' | a # _ \<Rightarrow> a) in
      if action \<noteq> ''get'' then ret 0
      else
        let tok = strip (case environ ''VAULT_GIT_TOKEN'' of None \<Rightarrow> '''' | Some v \<Rightarrow> v) in
        if tok = [] then ret 0
        else andthen (emit (EWriteOut (''username='' @ USERNAME @ [newline])))
               (andthen (emit (EWriteOut (''password='' @ tok @ [newline]))) (ret 0)))"

section \<open>Properties\<close>

text \<open>What the other side of git's credential protocol reads: lines of the form \<^verbatim>\<open>key=value\<close>.\<close>

definition written :: "effect list \<Rightarrow> string" where
  "written es = concat (map (\<lambda>e. case e of EWriteOut t \<Rightarrow> t | _ \<Rightarrow> []) es)"

definition protocol_pairs :: "string \<Rightarrow> (string \<times> string) list" where
  "protocol_pairs out =
     map (\<lambda>l. case partition_at (CHR ''='') l of (k, _, v) \<Rightarrow> (k, v))
       (filter (\<lambda>l. l \<noteq> []) (split_on newline out))"

lemma pairs_of_two:
  assumes "newline \<notin> set u" and "newline \<notin> set t"
  shows "protocol_pairs (''username='' @ u @ newline # ''password='' @ t @ [newline]) =
    [(''username'', u), (''password'', t)]"
proof -
  have k: "partition_at (CHR ''='') (''username='' @ u) = (''username'', True, u)"
    using partition_at_append [of "CHR ''=''" "''username''" u] by simp
  have k': "partition_at (CHR ''='') (''password='' @ t) = (''password'', True, t)"
    using partition_at_append [of "CHR ''=''" "''password''" t] by simp
  have "split_on newline ((''username='' @ u) @ newline # (''password='' @ t) @ newline # []) =
      [''username='' @ u, ''password='' @ t, []]"
    using assms by (subst split_on_word_sep, force)+ simp
  with k k' show ?thesis by (simp add: protocol_pairs_def)
qed

text \<open>
  C36: The helper answers exactly the \<^verbatim>\<open>get\<close> action and exactly when a token is set: it exits with 0
  in every case, and what git reads is then the fixed user name and the token stripped of white
  space, as two well-formed lines (for a token of one line), and nothing at all otherwise.
\<close>

theorem credential_answer:
  assumes "credential_main sys_argv environ (Some args) s = (r, s')"
    and "tok = strip (case environ ''VAULT_GIT_TOKEN'' of None \<Rightarrow> '''' | Some v \<Rightarrow> v)"
    and "newline \<notin> set tok"
  shows "r = Inr 0 \<and>
    protocol_pairs (written (new_effects s s')) =
      (if args \<noteq> [] \<and> hd args = ''get'' \<and> tok \<noteq> []
       then [(''username'', ''x-access-token''), (''password'', tok)] else [])"
proof (cases "args \<noteq> [] \<and> hd args = ''get'' \<and> tok \<noteq> []")
  case True
  then obtain rest where "args = ''get'' # rest" by (cases args) auto
  with True assms(1,2) have "r = Inr 0" and
    "new_effects s s' = [EWriteOut (''username='' @ USERNAME @ [newline]), EWriteOut (''password='' @ tok @ [newline])]"
    by (auto simp: credential_main_def Let_def andthen_def seq_def emit_def ret_def new_effects_def)
  moreover have "newline \<notin> set USERNAME" by (simp add: USERNAME_def)
  ultimately show ?thesis
    using True pairs_of_two [OF _ assms(3), of USERNAME] by (simp add: written_def USERNAME_def)
next
  case False
  with assms(1,2) have "r = Inr 0" "s' = s"
    by (auto simp: credential_main_def Let_def ret_def split: list.splits if_splits)
  with False show ?thesis
    by (simp add: new_effects_def written_def protocol_pairs_def)
qed

theorem credential_answer_witness:
  "\<exists>s'. credential_main [] (\<lambda>_. Some '' abc'') (Some [''get'']) \<lparr>world = (), trace = []\<rparr> = (Inr 0, s') \<and>
     protocol_pairs (written (new_effects \<lparr>world = (), trace = []\<rparr> s')) =
       [(''username'', ''x-access-token''), (''password'', ''abc'')]"
proof -
  let ?s = "\<lparr>world = (), trace = []\<rparr>"
  obtain r s' where run: "credential_main [] (\<lambda>_. Some '' abc'') (Some [''get'']) ?s = (r, s')"
    by (cases "credential_main [] (\<lambda>_. Some '' abc'') (Some [''get'']) ?s")
  have "''abc'' = strip '' abc''" by code_simp
  with credential_answer [OF run, of "''abc''"] run show ?thesis by auto
qed

end
