(* ===== verification/Worker.thy ===== *)
theory Worker
  imports Locks Events Heartbeat Stamping Credential
begin

text \<open>
  \<^verbatim>\<open>worker.py\<close>: the single consumer of the event queue. It stages and commits once per event,
  keeps a record of whether its last cycle completed cleanly, and pushes what it has committed
  when the queue has been quiet or when the last push is too long ago.
\<close>

section \<open>State\<close>

text \<open>
  What never changes after \<^verbatim>\<open>__init__\<close>: an empty \<open>remote\<close> is the commit-only mode, an empty
  \<open>branch\<close> means the current one, an empty \<open>heartbeat_url\<close> means no heartbeat.
\<close>

record worker_conf =
  git :: git_conf
  remote :: string
  branch :: string
  push_debounce :: pyfloat
  push_max_interval :: pyfloat
  heartbeat_url :: string

text \<open>What the thread changes. (The stop flag and the thread handle belong to the system.)\<close>

record 'w worker_st = "'w git_st" +
  unpushed :: bool
  last_push :: pyfloat
  degraded_rc :: "rc_code option"

type_synonym ('w, 'z, 'a) worker_prog = "(('w, 'z) worker_st_scheme, 'a) prog"

definition degraded :: "('w, 'z) worker_st_scheme \<Rightarrow> bool" where
  "degraded s = (degraded_rc s \<noteq> None)"

text \<open>
  \<^verbatim>\<open>from_config\<close>: the settings as the worker and its git wrapper get them; \<open>None\<close> where reading a
  number raises \<^verbatim>\<open>ValueError\<close>. The helper is named only when a token is set.
\<close>

definition git_from_config :: "settings \<Rightarrow> git_conf" where
  "git_from_config cfg =
     \<lparr>vault = VAULT_PATH cfg, timeout = DEFAULT_TIMEOUT,
      git_author_name = author_name cfg, git_author_email = author_email cfg,
      credential_helper = (if token cfg \<noteq> [] then Some HELPER_NAME else None)\<rparr>"

definition from_config :: "settings \<Rightarrow> worker_conf option" where
  "from_config cfg =
     (case (cfg_push_debounce cfg, cfg_push_max_interval cfg) of
        (Some debounce, Some max_interval) \<Rightarrow>
          Some \<lparr>git = git_from_config cfg, remote = cfg_remote cfg, branch = cfg_branch cfg,
                push_debounce = debounce, push_max_interval = max_interval,
                heartbeat_url = cfg_heartbeat_url cfg\<rparr>
      | _ \<Rightarrow> None)"

text \<open>\<^verbatim>\<open>_now\<close>: the monotonic clock.\<close>

abbreviation worker_now :: "'w env \<Rightarrow> ('w, 'z, pyfloat) worker_prog" where
  "worker_now env \<equiv> sys (x_monotonic env)"

text \<open>\<^verbatim>\<open>GitWorker.__init__\<close>: nothing is unpushed, and the clock of the last push starts now.\<close>

definition new_worker :: "'w env \<Rightarrow> ('w, 'z, unit) worker_prog" where
  "new_worker env =
     andthen (modify (\<lambda>s. s\<lparr>unpushed := False, degraded_rc := None\<rparr>))
       (seq (worker_now env) (\<lambda>now. modify (\<lambda>s. s\<lparr>last_push := now\<rparr>)))"

section \<open>Commit messages\<close>

definition op_text :: "string option \<Rightarrow> string" where
  "op_text oper = (case oper of None \<Rightarrow> ''None'' | Some t \<Rightarrow> t)"

definition mcp_message :: "string option \<Rightarrow> string list \<Rightarrow> string" where
  "mcp_message oper ps =
     (let summary =
        (if length ps = 1 then hd ps
         else let preview = join '', '' (take 3 ps) in
              if 3 < length ps then preview @ '' (+'' @ str_of_nat (length ps - 3) @ '' more)'' else preview)
      in ''mcp: '' @ op_text oper @ '' '' @ summary)"

definition sweep_message :: "'w env \<Rightarrow> (('w, 'z) io_scheme, string) prog" where
  "sweep_message env = seq (now_utc env) (\<lambda>ts. ret (''sync: auto '' @ ts))"

section \<open>Cycle health\<close>

definition lock_note :: "'w env \<Rightarrow> worker_conf \<Rightarrow> ('w, 'z, string) worker_prog" where
  "lock_note env c =
     seq (git_dir env (git c)) (\<lambda>d.
     seq (describe_present env d) (\<lambda>present.
       ret (if present \<noteq> [] then ''; lock present: '' @ present else '''')))"

definition record_failure :: "'w env \<Rightarrow> worker_conf \<Rightarrow> string \<Rightarrow> rc_code \<Rightarrow> ('w, 'z, unit) worker_prog" where
  "record_failure env c what code =
     seq (gets degraded_rc) (\<lambda>prior.
       andthen
         (if Some code \<noteq> prior
          then (let state = (case prior of None \<Rightarrow> ''degraded''
                                | Some p \<Rightarrow> ''still degraded, was rc='' @ code_str p) in
                seq (lock_note env c) (\<lambda>note. log Warn (MCycleFailed what code state note)))
          else log Debug (MStillDegraded what code))
         (modify (\<lambda>s. s\<lparr>degraded_rc := Some code\<rparr>)))"

definition record_clean :: "('w, 'z, unit) worker_prog" where
  "record_clean =
     seq (gets degraded_rc) (\<lambda>prior.
       andthen (case prior of None \<Rightarrow> ret () | Some p \<Rightarrow> log Info (MRecovered p))
         (modify (\<lambda>s. s\<lparr>degraded_rc := None\<rparr>)))"

text \<open>
  \<^verbatim>\<open>_stage_and_commit\<close>. The body of its \<^verbatim>\<open>try\<close> ends by returning (\<open>None\<close>), by recording a failure
  and returning, or by running into the call of \<^verbatim>\<open>_record_clean\<close>; the step that a timeout is
  reported for is the one the body had reached.
\<close>

definition timed :: "('w, 'z, unit) worker_prog \<Rightarrow> ('w, 'z, 'a) worker_prog \<Rightarrow>
    ('a \<Rightarrow> ('w, 'z, unit) worker_prog) \<Rightarrow> ('w, 'z, unit) worker_prog" where
  "timed handler m k =
     seq (attempt (seq m (\<lambda>x. ret (Some x))) (except_timeout (andthen handler (ret None))))
       (\<lambda>r. case r of None \<Rightarrow> ret () | Some x \<Rightarrow> k x)"

definition stage_and_commit ::
  "'w env \<Rightarrow> worker_conf \<Rightarrow> string \<Rightarrow> ('w, 'z, git_result) worker_prog \<Rightarrow> string
   \<Rightarrow> ('w, 'z, unit) worker_prog" where
  "stage_and_commit env c label stage message =
     (let stage_timeout = record_failure env c (label @ '' stage'') Timeout;
          commit_timeout = record_failure env c (label @ '' commit'') Timeout in
      timed stage_timeout stage (\<lambda>staged.
        if \<not> ok staged
        then timed stage_timeout (record_failure env c (label @ '' stage'') (Rc (rc staged))) ret
        else timed stage_timeout (has_staged env (git c)) (\<lambda>has.
          if \<not> has then record_clean
          else timed commit_timeout (commit env (git c) message) (\<lambda>result.
            if \<not> ok result
            then timed commit_timeout (record_failure env c (label @ '' commit'') (Rc (rc result))) ret
            else andthen (modify (\<lambda>s. s\<lparr>unpushed := True\<rparr>)) record_clean))))"

section \<open>Handling an event\<close>

text \<open>\<^verbatim>\<open>self.git.vault / p\<close> for every path of the event.\<close>

definition event_paths :: "worker_conf \<Rightarrow> sync_event \<Rightarrow> path list" where
  "event_paths c ev = map (joinpath (vault (git c))) (paths ev)"

definition handle_mcp_write ::
  "'w env \<Rightarrow> 'd yaml \<Rightarrow> settings \<Rightarrow> worker_conf \<Rightarrow> sync_event \<Rightarrow> ('w, 'z, unit) worker_prog" where
  "handle_mcp_write env y cfg c ev =
     (if paths ev = [] then ret ()
      else andthen
        (if stamp_enabled cfg \<and> operation ev \<noteq> Some ''deleted''
         then attempt (stamp_paths env y (event_paths c ev)) (except_any (log Exception MStampingFailed))
         else ret ())
        (stage_and_commit env c ''mcp'' (add env (git c) (paths ev))
           (mcp_message (operation ev) (paths ev))))"

definition handle_sync_sweep :: "'w env \<Rightarrow> worker_conf \<Rightarrow> ('w, 'z, unit) worker_prog" where
  "handle_sync_sweep env c =
     seq (sweep_message env) (\<lambda>message. stage_and_commit env c ''sweep'' (add_all env (git c)) message)"

definition handle_event ::
  "'w env \<Rightarrow> 'd yaml \<Rightarrow> settings \<Rightarrow> worker_conf \<Rightarrow> sync_event \<Rightarrow> ('w, 'z, unit) worker_prog" where
  "handle_event env y cfg c ev =
     attempt
       (if kind ev = MCP_WRITE then handle_mcp_write env y cfg c ev
        else if kind ev = SYNC_SWEEP then handle_sync_sweep env c
        else ret ())
       (except_any (log Exception (MEventFailed (kind ev))))"

section \<open>Pushing\<close>

definition push_overdue :: "'w env \<Rightarrow> worker_conf \<Rightarrow> ('w, 'z, bool) worker_prog" where
  "push_overdue env c =
     seq (worker_now env) (\<lambda>now.
     seq (gets last_push) (\<lambda>last. ret (f_le (push_max_interval c) (f_sub now last))))"

definition resolve_branch :: "'w env \<Rightarrow> worker_conf \<Rightarrow> ('w, 'z, string option) worker_prog" where
  "resolve_branch env c =
     (if branch c \<noteq> [] then ret (Some (branch c)) else current_branch env (git c))"

text \<open>The parts of \<^verbatim>\<open>_push_once\<close> after the branch is known.\<close>

definition rebase_part :: "'w env \<Rightarrow> worker_conf \<Rightarrow> string \<Rightarrow> ('w, 'z, unit) worker_prog" where
  "rebase_part env c b =
     seq (rebase_theirs env (git c) (remote c) b) (\<lambda>rebase.
       if ok rebase then ret ()
       else andthen (seq (rebase_abort env (git c)) (\<lambda>_. ret ()))
              (log Warn (MRebaseFailed (remote c) b)))"

definition sync_remote :: "'w env \<Rightarrow> worker_conf \<Rightarrow> string \<Rightarrow> ('w, 'z, unit) worker_prog" where
  "sync_remote env c b =
     seq (fetch env (git c) (remote c)) (\<lambda>fetched. if ok fetched then rebase_part env c b else ret ())"

definition pushed :: "'w env \<Rightarrow> worker_conf \<Rightarrow> ('w, 'z, unit) worker_prog" where
  "pushed env c =
     andthen (modify (\<lambda>s. s\<lparr>unpushed := False\<rparr>))
     (seq (worker_now env) (\<lambda>now.
      andthen (modify (\<lambda>s. s\<lparr>last_push := now\<rparr>))
        (if heartbeat_url c \<noteq> [] then ping env (heartbeat_url c) else ret ())))"

definition push_once :: "'w env \<Rightarrow> worker_conf \<Rightarrow> ('w, 'z, unit) worker_prog" where
  "push_once env c =
     seq (resolve_branch env c) (\<lambda>br.
       case br of
         None \<Rightarrow> log Warn MNoBranch
       | Some b \<Rightarrow>
           andthen (sync_remote env c b)
             (seq (push env (git c) (remote c) b) (\<lambda>result.
                if ok result then pushed env c else log Warn (MPushFailed (rc result)))))"

definition maybe_push :: "'w env \<Rightarrow> worker_conf \<Rightarrow> ('w, 'z, unit) worker_prog" where
  "maybe_push env c =
     seq (gets unpushed) (\<lambda>u.
       if \<not> u \<or> remote c = [] then ret ()
       else attempt (push_once env c)
         (\<lambda>e. case e of
            TimeoutExpired \<Rightarrow> Some (ret ())
          | _ \<Rightarrow> Some (log Exception MPushCycleFailed)))"

section \<open>The loop\<close>

text \<open>
  One iteration of \<^verbatim>\<open>run\<close>, for what the queue answered: \<open>None\<close> is \<^verbatim>\<open>queue.Empty\<close>. A history of the
  thread is the list of these answers; the loop over it is \<open>worker_run\<close>. The flush of \<^verbatim>\<open>stop\<close> is one
  more \<open>maybe_push\<close>.
\<close>

definition run_iteration ::
  "'w env \<Rightarrow> 'd yaml \<Rightarrow> settings \<Rightarrow> worker_conf \<Rightarrow> sync_event option \<Rightarrow> ('w, 'z, unit) worker_prog" where
  "run_iteration env y cfg c answer =
     (case answer of
        None \<Rightarrow> maybe_push env c
      | Some ev \<Rightarrow>
          andthen (handle_event env y cfg c ev)
            (seq (push_overdue env c) (\<lambda>overdue. if overdue then maybe_push env c else ret ())))"

definition worker_run ::
  "'w env \<Rightarrow> 'd yaml \<Rightarrow> settings \<Rightarrow> worker_conf \<Rightarrow> sync_event option list \<Rightarrow> ('w, 'z, unit) worker_prog" where
  "worker_run env y cfg c answers = foreach answers (run_iteration env y cfg c)"

end
