(* ===== verification/WorkerCycle.thy ===== *)
theory WorkerCycle
  imports Worker
begin

text \<open>
  What one cycle of the worker does, read off the trace: which git commands it ran, in which
  order and with which exit codes, and what the worker then believes about its own health and
  about unpushed commits.
\<close>

section \<open>Commands in the trace\<close>

text \<open>
  The git subcommand of an argument vector: what follows \<^verbatim>\<open>-C vault\<close> and the \<^verbatim>\<open>-c\<close> settings. Aborting a
  rebase is told apart from beginning one.
\<close>

fun skip_conf :: "string list \<Rightarrow> string list" where
  "skip_conf (f # v # rest) = (if f = ''-c'' then skip_conf rest else f # v # rest)"
| "skip_conf [f] = [f]"
| "skip_conf [] = []"

definition subcommand :: "string list \<Rightarrow> string" where
  "subcommand argv =
     (case skip_conf (drop 3 argv) of
        [] \<Rightarrow> ''''
      | x # rest \<Rightarrow> if x = ''rebase'' \<and> rest = [''--abort''] then ''rebase --abort'' else x)"

definition outcome :: "effect \<Rightarrow> (string \<times> int option) list" where
  "outcome e = (case e of EGit argv r \<Rightarrow> [(subcommand argv, r)] | _ \<Rightarrow> [])"

definition outcomes :: "effect list \<Rightarrow> (string \<times> int option) list" where
  "outcomes es = concat (map outcome es)"

lemma outcomes_simps [simp]:
  "outcomes [] = []"
  "outcomes (EGit argv r # es) = (subcommand argv, r) # outcomes es"
  "outcomes (ELog l m # es) = outcomes es"
  "outcomes (EWrite p x # es) = outcomes es"
  "outcomes (EUnlink p # es) = outcomes es"
  "outcomes (EHttp u t # es) = outcomes es"
  "outcomes (EReadBody n # es) = outcomes es"
  "outcomes (EImport x # es) = outcomes es"
  "outcomes (es @ fs) = outcomes es @ outcomes fs"
  by (simp_all add: outcomes_def outcome_def)

lemma drop_git_argv [simp]: "drop 3 (git_argv g args) = args"
  by (simp add: git_argv_def numeral_3_eq_3)

lemma skip_identity [simp]: "skip_conf (identity_args g @ rest) = skip_conf rest"
  by (simp add: identity_args_def)

lemma skip_credential [simp]: "skip_conf (credential_args g @ rest) = skip_conf rest"
  by (simp add: credential_args_def)

text \<open>What a git call that ended leaves: its exit code, or that it raised.\<close>

definition code_of :: "exn + git_result \<Rightarrow> int option" where
  "code_of r = (case r of Inl e \<Rightarrow> None | Inr x \<Rightarrow> Some (rc x))"

lemma code_of_simps [simp]: "code_of (Inl e) = None" "code_of (Inr x) = Some (rc x)"
  by (simp_all add: code_of_def)

lemma run_git_outcome:
  assumes "run_git env g args s = (r, s')"
  shows "\<exists>es. trace s' = trace s @ es \<and> outcomes es = [(subcommand (git_argv g args), code_of r)]"
  using assms by (auto simp: run_git_eq split: prod.splits sum.splits if_splits)

lemma run_git_more: "run_git env g args s = (r, s') \<Longrightarrow> git_st.more s' = git_st.more s"
  by (rule framesD [OF frames_more_run_git])

text \<open>The worker's own fields survive whatever keeps the part of the state after the git wrapper's.\<close>

lemma worker_fields:
  assumes "git_st.more s' = git_st.more s"
  shows "unpushed s' = unpushed s" "last_push s' = last_push s" "degraded_rc s' = degraded_rc s"
  using assms by (cases s; cases s'; simp)+

lemma add_outcome:
  "add env g ps s = (r, s') \<Longrightarrow>
   \<exists>es. trace s' = trace s @ es \<and> outcomes es = [(''add'', code_of r)] \<and> git_st.more s' = git_st.more s"
  using run_git_outcome run_git_more unfolding add_def
  by (fastforce simp: subcommand_def)

lemma add_all_outcome:
  "add_all env g s = (r, s') \<Longrightarrow>
   \<exists>es. trace s' = trace s @ es \<and> outcomes es = [(''add'', code_of r)] \<and> git_st.more s' = git_st.more s"
  using run_git_outcome run_git_more unfolding add_all_def
  by (fastforce simp: subcommand_def)

lemma has_staged_outcome:
  assumes "has_staged env g s = (r, s')"
  shows "\<exists>es k. trace s' = trace s @ es \<and> outcomes es = [(''diff'', k)] \<and> git_st.more s' = git_st.more s \<and>
     (case r of Inl e \<Rightarrow> k = None | Inr b \<Rightarrow> (\<exists>n. k = Some n \<and> b = (n \<noteq> 0)))"
proof -
  obtain r1 s1 where d: "run_git env g [''diff'', ''--cached'', ''--quiet''] s = (r1, s1)"
    by (cases "run_git env g [''diff'', ''--cached'', ''--quiet''] s")
  note out = run_git_outcome [OF d] run_git_more [OF d]
  from assms d have "s' = s1" "case r1 of Inl e \<Rightarrow> r = Inl e | Inr x \<Rightarrow> r = Inr (rc x \<noteq> 0)"
    by (auto simp: has_staged_def seq_def ok_def ret_def split: sum.splits)
  with out show ?thesis
    by (cases r1) (auto simp: subcommand_def)
qed

lemma commit_outcome:
  assumes "commit env g m s = (r, s')"
  shows "\<exists>es. trace s' = trace s @ es \<and> git_st.more s' = git_st.more s \<and>
     ((outcomes es = [(''diff'', None)] \<and> (\<exists>e. r = Inl e)) \<or>
      (outcomes es = [(''diff'', Some 0)] \<and> (\<exists>x. r = Inr x \<and> ok x)) \<or>
      (\<exists>k. k \<noteq> 0 \<and> outcomes es = [(''diff'', Some k), (''commit'', code_of r)]))"
proof -
  obtain r1 s1 where d: "has_staged env g s = (r1, s1)" by (cases "has_staged env g s")
  obtain es k where es: "trace s1 = trace s @ es" "outcomes es = [(''diff'', k)]"
      "git_st.more s1 = git_st.more s"
      "case r1 of Inl e \<Rightarrow> k = None | Inr b \<Rightarrow> (\<exists>n. k = Some n \<and> b = (n \<noteq> 0))"
    using has_staged_outcome [OF d] by blast
  show ?thesis
  proof (cases r1)
    case (Inl e)
    with assms d es show ?thesis by (auto simp: commit_def seq_Inl)
  next
    case (Inr b)
    show ?thesis
    proof (cases b)
      case False
      with Inr assms d es show ?thesis by (auto simp: commit_def seq_Inr ok_def)
    next
      case True
      with Inr assms d have c: "run_git env g (identity_args g @ [''commit'', ''-m'', m]) s1 = (r, s')"
        by (simp add: commit_def seq_Inr)
      obtain fs where "trace s' = trace s1 @ fs" "outcomes fs = [(''commit'', code_of r)]"
        using run_git_outcome [OF c] by (auto simp: subcommand_def)
      then show ?thesis
        using es True Inr run_git_more [OF c]
        by (intro exI [of _ "es @ fs"]) auto
    qed
  qed
qed

section \<open>Recording a failure\<close>

text \<open>The commands of a cycle, without the question for the git directory that a warning may ask.\<close>

definition cmds :: "effect list \<Rightarrow> (string \<times> int option) list" where
  "cmds es = filter (\<lambda>x. fst x \<noteq> ''rev-parse'') (outcomes es)"

lemma cmds_append [simp]: "cmds (es @ fs) = cmds es @ cmds fs"
  by (simp add: cmds_def)

lemma cmds_Nil [simp]: "cmds [] = []"
  by (simp add: cmds_def)

lemma cmds_of: "outcomes es = os \<Longrightarrow> list_all (\<lambda>x. fst x \<noteq> ''rev-parse'') os \<Longrightarrow> cmds es = os"
  by (simp add: cmds_def filter_id_conv list_all_iff)

definition probe_effect :: "effect \<Rightarrow> bool" where
  "probe_effect e \<longleftrightarrow> list_all (\<lambda>x. fst x = ''rev-parse'') (outcome e)"

lemma probe_log [simp]: "probe_effect (ELog l m)"
  by (simp add: probe_effect_def outcome_def)

lemma cmds_probe: "list_all probe_effect es \<Longrightarrow> cmds es = []"
  by (induction es) (auto simp: cmds_def outcomes_def probe_effect_def list_all_iff filter_empty_conv)

lemma frames_describe_present:
  assumes "\<And>s w. f (s\<lparr>world := w\<rparr>) = f s"
  shows "frames f (describe_present env d)"
proof -
  note calls = frames_sysI [of f, OF assms] frames_sys_tryI [of f, OF assms]
  have stat: "frames f (stat_locks env d now ps)" for now ps
    by (induction ps)
       (auto intro!: frame_intros calls simp: except_os_def split: exn.splits option.split)
  show ?thesis
    unfolding describe_present_def find_locks_def glob_locks_def rglob_locks_def
    by (auto intro!: frame_intros calls stat simp: except_os_def split: exn.splits)
qed

lemma lock_note_frame: "frames git_st.more (lock_note env c)"
  unfolding lock_note_def
  by (auto intro!: frame_intros git_dir_frame frames_describe_present)

lemma git_dir_probes: "grows probe_effect (git_dir env g)"
  unfolding git_dir_def Let_def
  by (intro grow_intros)
     (auto split: option.split intro!: grow_intros grows_run_gitI
       simp: probe_effect_def outcome_def subcommand_def)

lemma lock_note_probes: "grows probe_effect (lock_note env c)"
  unfolding lock_note_def by (auto intro!: grow_intros git_dir_probes describe_present_silent)

lemma record_failure_outcome:
  assumes "record_failure env c what code s = (r, s')"
  shows "\<exists>es. trace s' = trace s @ es \<and> cmds es = [] \<and> unpushed s' = unpushed s \<and>
     (case r of Inl e \<Rightarrow> degraded_rc s' = degraded_rc s | Inr _ \<Rightarrow> degraded_rc s' = Some code)"
proof (cases "Some code = degraded_rc s")
  case True
  then have "r = Inr ()" "degraded_rc s' = Some code" "unpushed s' = unpushed s"
    "trace s' = trace s @ [ELog Debug (MStillDegraded what code)]"
    using assms by (auto simp: record_failure_def seq_def gets_def andthen_def emit_def modify_def)
  then show ?thesis by (simp add: cmds_def)
next
  case False
  obtain r1 s1 where n: "lock_note env c s = (r1, s1)" by (cases "lock_note env c s")
  have t: "trace s1 = trace s @ new_effects s s1" "cmds (new_effects s s1) = []"
    using grows_new [OF lock_note_probes n] cmds_probe by blast+
  have m: "git_st.more s1 = git_st.more s" by (rule framesD [OF lock_note_frame n])
  show ?thesis
  proof (cases r1)
    case (Inl e)
    with False n assms have "r = Inl e" "s' = s1"
      by (auto simp: record_failure_def seq_def gets_def andthen_def Let_def)
    with t worker_fields [OF m] show ?thesis by (auto simp: exI [of _ "new_effects s s1"])
  next
    case (Inr nt)
    with False n assms have "r = Inr ()" and s': "degraded_rc s' = Some code" "unpushed s' = unpushed s1"
      "\<exists>l. trace s' = trace s1 @ [ELog Warn l]"
      by (auto simp: record_failure_def seq_def gets_def andthen_def emit_def modify_def Let_def)
    then obtain l where "trace s' = trace s @ (new_effects s s1 @ [ELog Warn l])" using t by auto
    moreover have "cmds (new_effects s s1 @ [ELog Warn l]) = []" using t by (simp add: cmds_def)
    ultimately show ?thesis using s' \<open>r = Inr ()\<close> worker_fields [OF m] by auto
  qed
qed

lemma record_clean_outcome:
  assumes "record_clean s = (r, s')"
  shows "r = Inr () \<and> degraded_rc s' = None \<and> unpushed s' = unpushed s \<and>
     (\<exists>es. trace s' = trace s @ es \<and> cmds es = [])"
  using assms
  by (auto simp: record_clean_def seq_def gets_def andthen_def emit_def modify_def cmds_def ret_def
      split: option.splits)

section \<open>One cycle\<close>

lemma timed_eq:
  "timed h m k s = (r, s') \<longleftrightarrow>
     (\<exists>x s1. m s = (Inr x, s1) \<and> k x s1 = (r, s')) \<or>
     (\<exists>s1. m s = (Inl TimeoutExpired, s1) \<and> h s1 = (r, s')) \<or>
     (\<exists>e. e \<noteq> TimeoutExpired \<and> m s = (Inl e, s') \<and> r = Inl e)"
proof (cases "m s")
  case (Pair q s1)
  show ?thesis
  proof (cases q)
    case (Inr x)
    with Pair show ?thesis by (simp add: timed_def seq_def attempt_def ret_def)
  next
    case (Inl e)
    with Pair show ?thesis
      by (cases "h s1") (auto simp: timed_def seq_def attempt_def ret_def except_timeout_def andthen_def
          split: sum.splits)
  qed
qed

text \<open>
  The commands of a cycle and whether it counts as clean: staging that fails ends it; then the
  index is asked whether there is anything to commit, twice when there is; and a commit is the
  last command. \<open>commits\<close> says that the cycle believes it has committed.
\<close>

definition cycle_shape :: "(string \<times> int option) list \<Rightarrow> bool \<Rightarrow> bool \<Rightarrow> bool" where
  "cycle_shape os clean commits \<longleftrightarrow>
     (\<exists>r. os = [(''add'', r)] \<and> r \<noteq> Some 0 \<and> \<not> clean \<and> \<not> commits) \<or>
     (\<exists>r. os = [(''add'', Some 0), (''diff'', r)] \<and> (r = None \<and> \<not> clean \<or> r = Some 0 \<and> clean) \<and> \<not> commits) \<or>
     (\<exists>k r. k \<noteq> 0 \<and> os = [(''add'', Some 0), (''diff'', Some k), (''diff'', r)] \<and>
        (r = None \<and> \<not> clean \<and> \<not> commits \<or> r = Some 0 \<and> clean \<and> commits)) \<or>
     (\<exists>k j r. k \<noteq> 0 \<and> j \<noteq> 0 \<and>
        os = [(''add'', Some 0), (''diff'', Some k), (''diff'', Some j), (''commit'', r)] \<and>
        (clean \<longleftrightarrow> r = Some 0) \<and> (commits \<longleftrightarrow> r = Some 0))"

text \<open>
  What is known when a part of a cycle that began in \<open>s\<close> ends in \<open>s'\<close> with \<open>r\<close>.
\<close>

definition cycle_end ::
  "('w, 'z) worker_st_scheme \<Rightarrow> exn + unit \<Rightarrow> ('w, 'z) worker_st_scheme \<Rightarrow> (string \<times> int option) list
   \<Rightarrow> bool \<Rightarrow> bool \<Rightarrow> bool" where
  "cycle_end s r s' os clean commits \<longleftrightarrow>
     (\<exists>es. trace s' = trace s @ es \<and> cmds es = os) \<and> (unpushed s' \<longleftrightarrow> unpushed s \<or> commits) \<and>
     (r = Inr () \<longrightarrow> (degraded_rc s' \<noteq> None \<longleftrightarrow> \<not> clean))"

lemma failure_end:
  "record_failure env c what code s = (r, s') \<Longrightarrow> cycle_end s r s' [] False False"
  by (drule record_failure_outcome) (auto simp: cycle_end_def split: sum.splits)

lemma clean_end: "record_clean s = (r, s') \<Longrightarrow> cycle_end s r s' [] True False"
  by (drule record_clean_outcome) (auto simp: cycle_end_def)

lemma timed_failure_end:
  assumes "timed (record_failure env c what' Timeout) (record_failure env c what code) ret s = (r, s')"
  shows "cycle_end s r s' [] False False"
  using assms unfolding timed_eq
proof (elim disjE exE conjE)
  fix x s1 assume "record_failure env c what code s = (Inr x, s1)" "ret x s1 = (r, s')"
  then show ?thesis using failure_end [of env c what code s "Inr x" s1] by auto
next
  fix s1 assume "record_failure env c what code s = (Inl TimeoutExpired, s1)"
    "record_failure env c what' Timeout s1 = (r, s')"
  then show ?thesis
    using failure_end [of env c what code s "Inl TimeoutExpired" s1] failure_end [of env c what' Timeout s1 r s']
    by (auto simp: cycle_end_def)
next
  fix e assume "record_failure env c what code s = (Inl e, s')" "r = Inl e"
  then show ?thesis using failure_end [of env c what code s "Inl e" s'] by auto
qed

lemma cycle_end_after:
  assumes "cycle_end s1 r s' os clean commits" and "trace s1 = trace s @ es" and "cmds es = os0"
    and "git_st.more s1 = git_st.more s"
  shows "cycle_end s r s' (os0 @ os) clean commits"
proof -
  obtain fs where "trace s' = trace s1 @ fs" "cmds fs = os" using assms(1) by (auto simp: cycle_end_def)
  then have "trace s' = trace s @ (es @ fs)" "cmds (es @ fs) = os0 @ os" using assms(2,3) by simp_all
  with assms(1) worker_fields [OF assms(4)] show ?thesis unfolding cycle_end_def by metis
qed

text \<open>A command that raised something other than a timeout ends the cycle with that exception.\<close>

lemma raised_end:
  "trace s' = trace s @ es \<Longrightarrow> cmds es = os \<Longrightarrow> git_st.more s' = git_st.more s \<Longrightarrow>
   cycle_end s (Inl e) s' os False False"
  using worker_fields [of s' s] by (auto simp: cycle_end_def)

lemma timed_step:
  assumes "timed (record_failure env c what Timeout) m k s = (r, s')"
    and "m s = (q, s1)" and "trace s1 = trace s @ es" and "git_st.more s1 = git_st.more s"
  shows "(\<exists>x. q = Inr x \<and> k x s1 = (r, s')) \<or> (\<exists>e. q = Inl e \<and> cycle_end s r s' (cmds es) False False)"
proof (cases q)
  case (Inr x)
  with assms show ?thesis by (auto simp: timed_eq)
next
  case (Inl e)
  show ?thesis
  proof (cases "e = TimeoutExpired")
    case True
    with Inl assms have "record_failure env c what Timeout s1 = (r, s')" by (auto simp: timed_eq)
    from cycle_end_after [OF failure_end [OF this] assms(3) refl assms(4)] Inl show ?thesis by simp
  next
    case False
    with Inl assms(1,2) have "r = Inl e" "s' = s1" by (auto simp: timed_eq)
    with raised_end [OF assms(3) refl assms(4)] Inl show ?thesis by simp
  qed
qed

text \<open>The end of a cycle whose index has something in it.\<close>

definition commit_part ::
  "'w env \<Rightarrow> worker_conf \<Rightarrow> string \<Rightarrow> string \<Rightarrow> ('w, 'z, unit) worker_prog" where
  "commit_part env c label message =
     (let commit_timeout = record_failure env c (label @ '' commit'') Timeout in
      timed commit_timeout (commit env (git c) message) (\<lambda>result.
        if \<not> ok result
        then timed commit_timeout (record_failure env c (label @ '' commit'') (Rc (rc result))) ret
        else andthen (modify (\<lambda>s. s\<lparr>unpushed := True\<rparr>)) record_clean))"

lemma committed_end:
  assumes "andthen (modify (\<lambda>s. s\<lparr>unpushed := True\<rparr>)) record_clean s = (r, s')"
  shows "cycle_end s r s' [] True True"
proof -
  have "record_clean (s\<lparr>unpushed := True\<rparr>) = (r, s')"
    using assms by (simp add: andthen_def seq_def modify_def)
  from clean_end [OF this] show ?thesis by (simp add: cycle_end_def)
qed

lemma cycle_shapes:
  "q \<noteq> Some 0 \<Longrightarrow> cycle_shape [(''add'', q)] False False"
  "cycle_shape [(''add'', Some 0), (''diff'', None)] False False"
  "cycle_shape [(''add'', Some 0), (''diff'', Some 0)] True False"
  "i \<noteq> 0 \<Longrightarrow> cycle_shape [(''add'', Some 0), (''diff'', Some i), (''diff'', None)] False False"
  "i \<noteq> 0 \<Longrightarrow> cycle_shape [(''add'', Some 0), (''diff'', Some i), (''diff'', Some 0)] True True"
  "i \<noteq> 0 \<Longrightarrow> j \<noteq> 0 \<Longrightarrow>
     cycle_shape [(''add'', Some 0), (''diff'', Some i), (''diff'', Some j), (''commit'', q)] (q = Some 0) (q = Some 0)"
  by (simp_all add: cycle_shape_def)

lemma commit_part_end:
  assumes "commit_part env c label message s = (r, s')"
  shows "\<exists>os clean commits. cycle_end s r s' os clean commits \<and>
     (\<forall>i. i \<noteq> 0 \<longrightarrow> cycle_shape ((''add'', Some 0) # (''diff'', Some i) # os) clean commits)"
proof -
  obtain q s1 where c: "commit env (git c) message s = (q, s1)" by (cases "commit env (git c) message s")
  obtain es where es: "trace s1 = trace s @ es" "git_st.more s1 = git_st.more s"
    and out: "(outcomes es = [(''diff'', None)] \<and> (\<exists>e. q = Inl e)) \<or>
      (outcomes es = [(''diff'', Some 0)] \<and> (\<exists>x. q = Inr x \<and> ok x)) \<or>
      (\<exists>k. k \<noteq> 0 \<and> outcomes es = [(''diff'', Some k), (''commit'', code_of q)])"
    using commit_outcome [OF c] by blast
  then have cm: "cmds es = outcomes es" by (auto simp: cmds_def)
  note step = timed_step [OF assms [unfolded commit_part_def Let_def] c es]
  consider e where "q = Inl e" | x where "q = Inr x" "\<not> ok x" | x where "q = Inr x" "ok x"
    by (cases q) auto
  then show ?thesis
  proof cases
    case 1
    with step have "cycle_end s r s' (cmds es) False False" by auto
    moreover have "i \<noteq> 0 \<longrightarrow> cycle_shape ((''add'', Some 0) # (''diff'', Some i) # cmds es) False False" for i
      using out cm 1 cycle_shapes(4) cycle_shapes(6) [of i _ None] by auto
    ultimately show ?thesis by blast
  next
    case 2
    with step have "cycle_end s1 r s' [] False False" using timed_failure_end by fastforce
    from cycle_end_after [OF this es(1) refl es(2)] have "cycle_end s r s' (cmds es) False False" by simp
    moreover have "i \<noteq> 0 \<longrightarrow> cycle_shape ((''add'', Some 0) # (''diff'', Some i) # cmds es) False False" for i
      using out cm 2 cycle_shapes(6) [of i _ "Some (rc x)"] by (auto simp: ok_def)
    ultimately show ?thesis by blast
  next
    case 3
    with step have "cycle_end s1 r s' [] True True" using committed_end by fastforce
    from cycle_end_after [OF this es(1) refl es(2)] have "cycle_end s r s' (cmds es) True True" by simp
    moreover have "i \<noteq> 0 \<longrightarrow> cycle_shape ((''add'', Some 0) # (''diff'', Some i) # cmds es) True True" for i
      using out cm 3 cycle_shapes(5) cycle_shapes(6) [of i _ "Some 0"] by (auto simp: ok_def)
    ultimately show ?thesis by blast
  qed
qed

text \<open>The part after staging has succeeded.\<close>

definition index_part ::
  "'w env \<Rightarrow> worker_conf \<Rightarrow> string \<Rightarrow> string \<Rightarrow> ('w, 'z, unit) worker_prog" where
  "index_part env c label message =
     timed (record_failure env c (label @ '' stage'') Timeout) (has_staged env (git c))
       (\<lambda>has. if \<not> has then record_clean else commit_part env c label message)"

lemma stage_and_commit_parts:
  "stage_and_commit env c label stage message =
     timed (record_failure env c (label @ '' stage'') Timeout) stage (\<lambda>staged.
       if \<not> ok staged
       then timed (record_failure env c (label @ '' stage'') Timeout)
         (record_failure env c (label @ '' stage'') (Rc (rc staged))) ret
       else index_part env c label message)"
  unfolding stage_and_commit_def index_part_def commit_part_def Let_def by (rule refl)

lemma index_part_end:
  assumes "index_part env c label message s = (r, s')"
  shows "\<exists>os clean commits. cycle_end s r s' os clean commits \<and>
    cycle_shape ((''add'', Some 0) # os) clean commits"
proof -
  obtain b s1 where d: "has_staged env (git c) s = (b, s1)" by (cases "has_staged env (git c) s")
  obtain es n where es: "trace s1 = trace s @ es" "git_st.more s1 = git_st.more s"
    and out: "outcomes es = [(''diff'', n)]"
    and b: "case b of Inl e \<Rightarrow> n = None | Inr h \<Rightarrow> (\<exists>i. n = Some i \<and> h = (i \<noteq> 0))"
    using has_staged_outcome [OF d] by blast
  have cm: "cmds es = [(''diff'', n)]" using out by (simp add: cmds_def)
  note step = timed_step [OF assms [unfolded index_part_def] d es]
  consider e where "b = Inl e" | "b = Inr False" | "b = Inr True"
    by (cases b) auto
  then show ?thesis
  proof cases
    case 1
    with step have "cycle_end s r s' (cmds es) False False" by auto
    with 1 b cm show ?thesis using cycle_shapes(2) by auto
  next
    case 2
    then have run: "record_clean s1 = (r, s')" using step by auto
    from 2 b have "n = Some 0" by simp
    with cycle_end_after [OF clean_end [OF run] es(1) cm es(2)] show ?thesis
      using cycle_shapes(3) by auto
  next
    case 3
    then have run: "commit_part env c label message s1 = (r, s')" using step by auto
    from 3 b obtain i where i: "n = Some i" "i \<noteq> 0" by auto
    from commit_part_end [OF run] obtain os clean commits where
      ce: "cycle_end s1 r s' os clean commits"
      and "cycle_shape ((''add'', Some 0) # (''diff'', Some i) # os) clean commits" using i(2) by blast
    with cycle_end_after [OF ce es(1) cm es(2)] show ?thesis using i(1) by auto
  qed
qed

lemma cycle_contract:
  assumes stage: "\<And>s r s'. stage s = (r, s') \<Longrightarrow>
      \<exists>es. trace s' = trace s @ es \<and> outcomes es = [(''add'', code_of r)] \<and> git_st.more s' = git_st.more s"
    and run: "stage_and_commit env c label stage message s = (r, s')"
  shows "\<exists>os clean commits. cycle_shape os clean commits \<and> cycle_end s r s' os clean commits"
proof -
  obtain q s1 where st: "stage s = (q, s1)" by (cases "stage s")
  obtain es where es: "trace s1 = trace s @ es" "git_st.more s1 = git_st.more s"
    and out: "outcomes es = [(''add'', code_of q)]" using stage [OF st] by blast
  then have cm: "cmds es = [(''add'', code_of q)]" by (simp add: cmds_def)
  note step = timed_step [OF run [unfolded stage_and_commit_parts] st es]
  consider e where "q = Inl e" | x where "q = Inr x" "\<not> ok x" | x where "q = Inr x" "ok x"
    by (cases q) auto
  then show ?thesis
  proof cases
    case 1
    with step have "cycle_end s r s' (cmds es) False False" by auto
    with 1 cm show ?thesis using cycle_shapes(1) [of None] by auto
  next
    case 2
    then have fail: "timed (record_failure env c (label @ '' stage'') Timeout)
         (record_failure env c (label @ '' stage'') (Rc (rc x))) ret s1 = (r, s')"
      using step by auto
    from cycle_end_after [OF timed_failure_end [OF fail] es(1) cm es(2)] show ?thesis
      using 2 cycle_shapes(1) [of "Some (rc x)"] by (auto simp: ok_def)
  next
    case 3
    then have rest: "index_part env c label message s1 = (r, s')" using step by auto
    from index_part_end [OF rest] obtain os clean commits where
      ce: "cycle_end s1 r s' os clean commits" "cycle_shape ((''add'', Some 0) # os) clean commits" by blast
    from cycle_end_after [OF ce(1) es(1) cm es(2)] ce(2) show ?thesis
      using 3 by (auto simp: ok_def)
  qed
qed

section \<open>One event\<close>

lemma frames_stamp_paths:
  assumes "\<And>s w. f (s\<lparr>world := w\<rparr>) = f s" and "\<And>s t. f (s\<lparr>trace := t\<rparr>) = f s"
  shows "frames f (stamp_paths env y ps)"
proof -
  note calls = frames_sysI [of f, OF assms(1)] frames_sys_tryI [of f, OF assms(1)]
    frames_emitI [of f, OF assms(2)]
  have "frames f (restamp env y p original body data)" for p original body data
    unfolding restamp_def now_utc_def write_text_def Let_def by (auto intro!: frame_intros calls)
  then have "frames f (stamp env y p)" for p
    unfolding stamp_def stamp_body_def read_text_def Let_def
    by (auto intro!: frame_intros calls split: prod.split)
  then show ?thesis
    unfolding stamp_paths_def stamp_one_def by (auto intro!: frame_intros)
qed

definition stamping_part ::
  "'w env \<Rightarrow> 'd yaml \<Rightarrow> settings \<Rightarrow> worker_conf \<Rightarrow> sync_event \<Rightarrow> ('w, 'z, unit) worker_prog" where
  "stamping_part env y cfg c ev =
     (if stamp_enabled cfg \<and> operation ev \<noteq> Some ''deleted''
      then attempt (stamp_paths env y (event_paths c ev)) (except_any (log Exception MStampingFailed))
      else ret ())"

lemma stamping_part_never_raises: "never_raises (stamping_part env y cfg c ev)"
  by (simp add: stamping_part_def never_raises_attempt_any)

lemma stamping_part_frame: "frames git_st.more (stamping_part env y cfg c ev)"
  unfolding stamping_part_def
  by (auto intro!: frame_intros frames_stamp_paths simp: except_any_def)

lemma stamping_part_probes: "grows probe_effect (stamping_part env y cfg c ev)"
proof -
  have "probe_effect e" if "stamp_effect p e" for p e
    using that by (auto simp: stamp_effect_def probe_effect_def outcome_def)
  then have "grows probe_effect (stamp_paths env y ps)" for ps
    by (blast intro: grows_mono [OF stamp_paths_grows])
  then show ?thesis
    unfolding stamping_part_def by (auto intro!: grow_intros simp: except_any_def)
qed

text \<open>Whatever runs before a cycle and only probes leaves the cycle's contract as it is.\<close>

lemma cycle_after_probe:
  assumes "seq m k s = (r, s')" and "never_raises m" and "frames git_st.more m" and "grows probe_effect m"
    and "\<And>x s1 r s'. k x s1 = (r, s') \<Longrightarrow>
      \<exists>os clean commits. cycle_shape os clean commits \<and> cycle_end s1 r s' os clean commits"
  shows "\<exists>os clean commits. cycle_shape os clean commits \<and> cycle_end s r s' os clean commits"
proof -
  obtain x s1 where m: "m s = (Inr x, s1)" using assms(2) by (rule never_raisesE)
  then have "k x s1 = (r, s')" using assms(1) by (simp add: seq_Inr)
  then obtain os clean commits where ce: "cycle_shape os clean commits" "cycle_end s1 r s' os clean commits"
    using assms(5) by blast
  have "trace s1 = trace s @ new_effects s s1" "cmds (new_effects s s1) = []"
    using grows_new [OF assms(4) m] cmds_probe by blast+
  from cycle_end_after [OF ce(2) this framesD [OF assms(3) m]] ce(1) show ?thesis by auto
qed

lemma handle_mcp_write_end:
  assumes "handle_mcp_write env y cfg c ev s = (r, s')" and "paths ev \<noteq> []"
  shows "\<exists>os clean commits. cycle_shape os clean commits \<and> cycle_end s r s' os clean commits"
proof -
  have "seq (stamping_part env y cfg c ev) (\<lambda>_. stage_and_commit env c ''mcp'' (add env (git c) (paths ev))
      (mcp_message (operation ev) (paths ev))) s = (r, s')"
    using assms by (simp add: handle_mcp_write_def stamping_part_def andthen_def)
  then show ?thesis
    by (rule cycle_after_probe [OF _ stamping_part_never_raises stamping_part_frame stamping_part_probes])
       (rule cycle_contract [OF add_outcome])
qed

lemma handle_sync_sweep_end:
  assumes "handle_sync_sweep env c s = (r, s')"
  shows "\<exists>os clean commits. cycle_shape os clean commits \<and> cycle_end s r s' os clean commits"
proof -
  have "never_raises (sweep_message env)" "frames git_st.more (sweep_message env)"
    "grows probe_effect (sweep_message env)"
    unfolding sweep_message_def now_utc_def by (auto intro!: never_raises_seq frame_intros grow_intros)
  then show ?thesis
    by (rule cycle_after_probe [OF assms [unfolded handle_sync_sweep_def]])
       (rule cycle_contract [OF add_all_outcome])
qed

section \<open>Properties\<close>

text \<open>
  C7: Handling an event never raises, and every event that has something to do (a write with paths,
  a sweep) is one cycle of git commands with the right contract. The commands are those of
  \<open>cycle_shape\<close>: nothing is asked or committed after staging failed, a commit is only tried right
  after the index was found non-empty, and it comes last. The worker believes it has unpushed commits
  afterwards exactly when it did before or this cycle committed. And unless an unexpected exception was
  logged, the worker is degraded exactly when the cycle was not clean: staging, the questions and the
  commit all have to succeed, so "nothing to commit" is healthy and "cannot commit" is not.
\<close>

theorem event_cycle:
  assumes "handle_event env y cfg c ev s = (r, s')"
    and "kind ev = MCP_WRITE \<and> paths ev \<noteq> [] \<or> kind ev = SYNC_SWEEP"
  shows "r = Inr () \<and>
    (\<exists>clean commits. cycle_shape (cmds (new_effects s s')) clean commits \<and>
       (unpushed s' \<longleftrightarrow> unpushed s \<or> commits) \<and>
       (ELog Exception (MEventFailed (kind ev)) \<notin> set (new_effects s s') \<longrightarrow> (degraded s' \<longleftrightarrow> \<not> clean)))"
proof -
  define m :: "('a, 'b, unit) worker_prog" where
    "m = (if kind ev = MCP_WRITE then handle_mcp_write env y cfg c ev
        else if kind ev = SYNC_SWEEP then handle_sync_sweep env c else ret ())"
  obtain q s1 where body: "m s = (q, s1)" by (cases "m s")
  have "\<exists>os clean commits. cycle_shape os clean commits \<and> cycle_end s q s1 os clean commits"
  proof (cases "kind ev = MCP_WRITE")
    case True
    with body assms(2) show ?thesis
      by (intro handle_mcp_write_end [of env y cfg c ev]) (simp_all add: m_def)
  next
    case False
    with body assms(2) show ?thesis
      by (intro handle_sync_sweep_end [of env c]) (simp add: m_def)
  qed
  then obtain os clean commits where shape: "cycle_shape os clean commits"
    and ce: "cycle_end s q s1 os clean commits" by blast
  obtain es where es: "trace s1 = trace s @ es" "cmds es = os" using ce by (auto simp: cycle_end_def)
  have run: "attempt m (except_any (log Exception (MEventFailed (kind ev)))) s = (r, s')"
    using assms(1) by (simp add: handle_event_def m_def)
  show ?thesis
  proof (cases q)
    case (Inl e)
    then have "r = Inr ()" and s': "s' = s1\<lparr>trace := trace s1 @ [ELog Exception (MEventFailed (kind ev))]\<rparr>"
      using run body by (auto simp: attempt_def except_any_def emit_def)
    moreover have "new_effects s s' = es @ [ELog Exception (MEventFailed (kind ev))]"
      using es s' by (simp add: new_effects_def)
    ultimately show ?thesis using shape ce es by (auto simp: cmds_def cycle_end_def)
  next
    case (Inr u)
    then have "r = Inr ()" "s' = s1" using run body by (auto simp: attempt_def)
    with Inr shape ce es show ?thesis
      by (auto simp: cycle_end_def new_effects_eq degraded_def)
  qed
qed

end
