(* ===== verification/WorkerPush.thy ===== *)
theory WorkerPush
  imports WorkerCycle
begin

text \<open>
  The push cycle as a protocol: which git commands follow each other, depending on their exit
  codes, and what the worker does with the outcome.
\<close>

section \<open>The protocol\<close>

text \<open>
  Fetch; after a fetch that succeeded, rebase; after a rebase that failed, abort it; and then push,
  whatever came before. A command that raises (a timeout) ends the cycle where it is.
\<close>

datatype phase = AtFetch | AtRebase | AtAbort | AtPush | Finished

definition expected :: "phase \<Rightarrow> string" where
  "expected ph = (case ph of AtFetch \<Rightarrow> ''fetch'' | AtRebase \<Rightarrow> ''rebase'' | AtAbort \<Rightarrow> ''rebase --abort''
     | AtPush \<Rightarrow> ''push'' | Finished \<Rightarrow> '''')"

definition next_phase :: "phase \<Rightarrow> int option \<Rightarrow> phase" where
  "next_phase ph r =
     (case r of
        None \<Rightarrow> Finished
      | Some k \<Rightarrow>
          (case ph of
             AtFetch \<Rightarrow> if k = 0 then AtRebase else AtPush
           | AtRebase \<Rightarrow> if k = 0 then AtPush else AtAbort
           | AtAbort \<Rightarrow> AtPush
           | AtPush \<Rightarrow> Finished
           | Finished \<Rightarrow> Finished))"

fun follows :: "phase \<Rightarrow> (string \<times> int option) list \<Rightarrow> bool" where
  "follows ph [] \<longleftrightarrow> ph = Finished"
| "follows ph ((name, r) # os) \<longleftrightarrow> ph \<noteq> Finished \<and> name = expected ph \<and> follows (next_phase ph r) os"

definition push_succeeded :: "(string \<times> int option) list \<Rightarrow> bool" where
  "push_succeeded os \<longleftrightarrow> (''push'', Some 0) \<in> set os"

section \<open>The steps\<close>

text \<open>
  What is known when a part of a push cycle that began in \<open>s\<close> ends in \<open>s'\<close>: the commands it ran, the
  requests it made and what became of the flag.
\<close>

definition push_end ::
  "('w, 'z) worker_st_scheme \<Rightarrow> ('w, 'z) worker_st_scheme \<Rightarrow> (string \<times> int option) list \<Rightarrow> string list \<Rightarrow> bool
   \<Rightarrow> bool" where
  "push_end s s' os urls cleared \<longleftrightarrow>
     (\<exists>es. trace s' = trace s @ es \<and> cmds es = os \<and> requests es = urls) \<and>
     (unpushed s' \<longleftrightarrow> unpushed s \<and> \<not> cleared) \<and> degraded_rc s' = degraded_rc s"

lemma push_end_refl: "push_end s s [] [] False"
  by (auto simp: push_end_def intro: exI [of _ "[]"])

lemma push_end_trans:
  assumes "push_end s s1 os urls b" and "push_end s1 s' os' urls' b'"
  shows "push_end s s' (os @ os') (urls @ urls') (b \<or> b')"
proof -
  obtain es fs where "trace s1 = trace s @ es" "cmds es = os" "requests es = urls"
    "trace s' = trace s1 @ fs" "cmds fs = os'" "requests fs = urls'"
    using assms unfolding push_end_def by blast
  then have "trace s' = trace s @ (es @ fs)" "cmds (es @ fs) = os @ os'" "requests (es @ fs) = urls @ urls'"
    by simp_all
  with assms show ?thesis unfolding push_end_def by metis
qed

lemma push_end_log: "push_end s (s\<lparr>trace := trace s @ [ELog l m]\<rparr>) [] [] False"
  by (auto simp: push_end_def cmds_def)

lemma run_git_push_end:
  assumes "run_git env g args s = (q, s')"
  shows "push_end s s' (filter (\<lambda>x. fst x \<noteq> ''rev-parse'') [(subcommand (git_argv g args), code_of q)]) [] False"
proof -
  obtain es where es: "trace s' = trace s @ es" "outcomes es = [(subcommand (git_argv g args), code_of q)]"
    using run_git_outcome [OF assms] by blast
  have "list_all (\<lambda>e. requests [e] = []) es"
    using assms es(1)
    by (auto simp: run_git_eq requests_def split: prod.splits sum.splits if_splits)
  then have "requests es = []" by (induction es) (auto simp: requests_def)
  with es worker_fields [OF run_git_more [OF assms]] show ?thesis
    by (auto simp: push_end_def cmds_def)
qed

lemma fetch_end: "fetch env g rem s = (q, s') \<Longrightarrow> push_end s s' [(''fetch'', code_of q)] [] False"
  unfolding fetch_def by (drule run_git_push_end) (simp add: subcommand_def)

lemma rebase_end: "rebase_theirs env g rem b s = (q, s') \<Longrightarrow> push_end s s' [(''rebase'', code_of q)] [] False"
  unfolding rebase_theirs_def by (drule run_git_push_end) (simp add: subcommand_def)

lemma abort_end: "rebase_abort env g s = (q, s') \<Longrightarrow> push_end s s' [(''rebase --abort'', code_of q)] [] False"
  unfolding rebase_abort_def by (drule run_git_push_end) (simp add: subcommand_def)

lemma push_cmd_end: "push env g rem b s = (q, s') \<Longrightarrow> push_end s s' [(''push'', code_of q)] [] False"
  unfolding push_def by (drule run_git_push_end) (simp add: subcommand_def)

lemma resolve_branch_end:
  assumes "resolve_branch env c s = (q, s')"
  shows "push_end s s' [] [] False"
proof (cases "branch c = []")
  case True
  obtain q1 s1 where run: "run_git env (git c) [''rev-parse'', ''--abbrev-ref'', ''HEAD''] s = (q1, s1)"
    by (cases "run_git env (git c) [''rev-parse'', ''--abbrev-ref'', ''HEAD''] s")
  with True assms have "s' = s1"
    by (auto simp: resolve_branch_def current_branch_def seq_def ret_def Let_def split: sum.splits if_splits)
  with run_git_push_end [OF run] show ?thesis by (simp add: subcommand_def)
qed (use assms in \<open>auto simp: resolve_branch_def push_end_refl\<close>)

text \<open>
  \<open>leads ph q os\<close>: the commands \<open>os\<close> begin at the phase \<open>ph\<close>; they complete the cycle when the part
  raised, and lead to the push when it returned.
\<close>

definition leads :: "phase \<Rightarrow> exn + unit \<Rightarrow> (string \<times> int option) list \<Rightarrow> bool" where
  "leads ph q os \<longleftrightarrow> \<not> push_succeeded os \<and>
     (case q of Inl e \<Rightarrow> follows ph os
      | Inr _ \<Rightarrow> (\<forall>rest. follows AtPush rest \<longrightarrow> follows ph (os @ rest)))"

lemmas phase_simps = expected_def next_phase_def push_succeeded_def leads_def

lemma rebase_part_end:
  assumes "rebase_part env c b s = (q, s')"
  shows "\<exists>os. push_end s s' os [] False \<and> leads AtRebase q os"
proof -
  obtain r s1 where r: "rebase_theirs env (git c) (remote c) b s = (r, s1)"
    by (cases "rebase_theirs env (git c) (remote c) b s")
  note re = rebase_end [OF r]
  obtain a s2 where a: "rebase_abort env (git c) s1 = (a, s2)" by (cases "rebase_abort env (git c) s1")
  consider e where "r = Inl e" | y where "r = Inr y" "rc y = 0" | y where "r = Inr y" "rc y \<noteq> 0"
    by (cases r) auto
  then show ?thesis
  proof cases
    case 1
    with r assms have "q = Inl e" "s' = s1" by (auto simp: rebase_part_def seq_Inl)
    with re 1 show ?thesis by (intro exI [of _ "[(''rebase'', None)]"]) (simp add: phase_simps)
  next
    case 2
    with r assms have "q = Inr ()" "s' = s1" by (auto simp: rebase_part_def seq_Inr ok_def)
    with re 2 show ?thesis by (intro exI [of _ "[(''rebase'', Some 0)]"]) (simp add: phase_simps)
  next
    case 3
    let ?os = "[(''rebase'', Some (rc y)), (''rebase --abort'', code_of a)]"
    have ae: "push_end s s2 ?os [] False" using push_end_trans [OF re abort_end [OF a]] 3 by simp
    have "(\<exists>e. a = Inl e \<and> q = Inl e \<and> s' = s2) \<or>
      (\<exists>z. a = Inr z \<and> q = Inr () \<and> s' = s2\<lparr>trace := trace s2 @ [ELog Warn (MRebaseFailed (remote c) b)]\<rparr>)"
      using r a 3 assms
      by (cases a) (auto simp: rebase_part_def seq_Inr seq_Inl ok_def andthen_def emit_def)
    then show ?thesis
      using ae push_end_trans [OF ae push_end_log] 3
      by (intro exI [of _ ?os]) (auto simp: phase_simps)
  qed
qed

lemma sync_remote_end:
  assumes "sync_remote env c b s = (q, s')"
  shows "\<exists>os. push_end s s' os [] False \<and> leads AtFetch q os"
proof -
  obtain f s1 where f: "fetch env (git c) (remote c) s = (f, s1)" by (cases "fetch env (git c) (remote c) s")
  note fe = fetch_end [OF f]
  consider e where "f = Inl e" | x where "f = Inr x" "rc x \<noteq> 0" | x where "f = Inr x" "rc x = 0"
    by (cases f) auto
  then show ?thesis
  proof cases
    case 1
    with f assms have "q = Inl e" "s' = s1" by (auto simp: sync_remote_def seq_Inl)
    with fe 1 show ?thesis by (intro exI [of _ "[(''fetch'', None)]"]) (simp add: phase_simps)
  next
    case 2
    with f assms have "q = Inr ()" "s' = s1" by (auto simp: sync_remote_def seq_Inr ok_def)
    with fe 2 show ?thesis by (intro exI [of _ "[(''fetch'', Some (rc x))]"]) (simp add: phase_simps)
  next
    case 3
    with f assms have "rebase_part env c b s1 = (q, s')" by (simp add: sync_remote_def seq_Inr ok_def)
    then obtain os where "push_end s1 s' os [] False" "leads AtRebase q os"
      using rebase_part_end by blast
    with push_end_trans [OF fe this(1)] 3 show ?thesis
      by (intro exI [of _ "(''fetch'', Some 0) # os"]) (auto simp: phase_simps split: sum.splits)
  qed
qed

text \<open>The requests that a heartbeat URL leads to.\<close>

definition beats :: "string \<Rightarrow> string list" where
  "beats url = (if url \<noteq> [] \<and> (case urlsplit url of Inl e \<Rightarrow> False | Inr p \<Rightarrow> True) then [url] else [])"

lemma ping_end:
  assumes "ping env url s = (q, s')"
  shows "push_end s s' [] (beats url) False"
proof -
  have "probe_effect e" if "ping_effect url e" for e
    using that by (auto simp: ping_effect_def probe_effect_def outcome_def)
  then have "grows probe_effect (ping env url :: ('a, 'b, unit) worker_prog)"
    by (blast intro: grows_mono [OF ping_grows])
  from grows_new [OF this assms] have t: "trace s' = trace s @ new_effects s s'" "cmds (new_effects s s') = []"
    using cmds_probe by blast+
  have "git_st.more s' = git_st.more s"
    by (rule framesD [OF frames_ping assms]) simp
  moreover have "requests (new_effects s s') = beats url"
  proof (cases "url \<noteq> [] \<and> (\<exists>p. urlsplit url = Inr p)")
    case True
    then obtain p where "url \<noteq> []" "urlsplit url = Inr p" by blast
    with ping_trace [OF this, of env s] assms show ?thesis
      by (auto simp: beats_def new_effects_def)
  next
    case False
    then have "s' = s"
      using assms by (cases "url = []"; cases "urlsplit url") (auto simp: ping_def)
    with False show ?thesis by (auto simp: beats_def new_effects_def split: sum.splits)
  qed
  ultimately show ?thesis using t worker_fields [of s' s] unfolding push_end_def by metis
qed

lemma pushed_end:
  assumes "pushed env c s = (q, s')"
  shows "push_end s s' [] (beats (heartbeat_url c)) True"
proof -
  define s1 where "s1 = s\<lparr>unpushed := False\<rparr>"
  obtain now w where now: "x_monotonic env (world s1) = (now, w)" by (cases "x_monotonic env (world s1)")
  define s2 where "s2 = s1\<lparr>world := w, last_push := now\<rparr>"
  have m: "push_end s s2 [] [] True"
    by (auto simp: push_end_def s1_def s2_def intro: exI [of _ "[]"])
  have "(if heartbeat_url c \<noteq> [] then ping env (heartbeat_url c) else ret ()) s2 = (q, s')"
    using assms now by (simp add: pushed_def andthen_def seq_def modify_def sys_def s1_def s2_def)
  then have "push_end s2 s' [] (beats (heartbeat_url c)) False"
    using ping_end by (cases "heartbeat_url c = []") (auto simp: push_end_refl beats_def [of "[]"])
  from push_end_trans [OF m this] show ?thesis by simp
qed
section \<open>One push cycle\<close>

text \<open>The push itself, and what follows it.\<close>

definition push_part :: "'w env \<Rightarrow> worker_conf \<Rightarrow> string \<Rightarrow> ('w, 'z, unit) worker_prog" where
  "push_part env c b =
     seq (push env (git c) (remote c) b) (\<lambda>result.
       if ok result then pushed env c else log Warn (MPushFailed (rc result)))"

lemma push_once_parts:
  "push_once env c =
     seq (resolve_branch env c) (\<lambda>br. case br of
       None \<Rightarrow> log Warn MNoBranch | Some b \<Rightarrow> andthen (sync_remote env c b) (push_part env c b))"
  unfolding push_once_def push_part_def by (rule refl)

lemma push_part_end:
  assumes "push_part env c b s = (q, s')"
  shows "\<exists>k. push_end s s' [(''push'', k)] (if k = Some 0 then beats (heartbeat_url c) else []) (k = Some 0)"
proof -
  obtain p s1 where p: "push env (git c) (remote c) b s = (p, s1)" by (cases "push env (git c) (remote c) b s")
  note pe = push_cmd_end [OF p]
  consider e where "p = Inl e" "s' = s1" | x where "p = Inr x" "ok x" "pushed env c s1 = (q, s')"
    | x where "p = Inr x" "\<not> ok x" "s' = s1\<lparr>trace := trace s1 @ [ELog Warn (MPushFailed (rc x))]\<rparr>"
    using assms p by (cases p) (auto simp: push_part_def seq_Inr seq_Inl emit_def split: if_splits)
  then show ?thesis
  proof cases
    case 1
    with pe show ?thesis by (intro exI [of _ None]) simp
  next
    case 2
    with push_end_trans [OF pe pushed_end [OF 2(3)]] show ?thesis by (intro exI [of _ "Some 0"]) (simp add: ok_def)
  next
    case 3
    with push_end_trans [OF pe push_end_log] show ?thesis by (intro exI [of _ "Some (rc x)"]) (auto simp: ok_def)
  qed
qed

lemma push_once_end:
  assumes "push_once env c s = (q, s')"
  shows "\<exists>os. (os = [] \<or> follows AtFetch os) \<and>
    push_end s s' os (if push_succeeded os then beats (heartbeat_url c) else []) (push_succeeded os)"
proof -
  obtain br s1 where br: "resolve_branch env c s = (br, s1)" by (cases "resolve_branch env c s")
  note be = resolve_branch_end [OF br]
  consider "\<exists>e. br = Inl e \<and> s' = s1" | "br = Inr None" | b where "br = Inr (Some b)"
    using assms br by (cases br) (auto simp: push_once_def seq_Inl)
  then show ?thesis
  proof cases
    case 1
    with be show ?thesis by (intro exI [of _ "[]"]) (auto simp: push_succeeded_def)
  next
    case 2
    with assms br have "s' = s1\<lparr>trace := trace s1 @ [ELog Warn MNoBranch]\<rparr>"
      by (auto simp: push_once_def seq_Inr emit_def)
    with push_end_trans [OF be push_end_log] show ?thesis
      by (intro exI [of _ "[]"]) (auto simp: push_succeeded_def)
  next
    case 3
    obtain u s2 where u: "sync_remote env c b s1 = (u, s2)" by (cases "sync_remote env c b s1")
    obtain os where os: "push_end s1 s2 os [] False" "leads AtFetch u os"
      using sync_remote_end [OF u] by blast
    have se: "push_end s s2 os [] False" using push_end_trans [OF be os(1)] by simp
    show ?thesis
    proof (cases u)
      case (Inl e)
      with 3 assms br u have "s' = s2" by (auto simp: push_once_def seq_Inr seq_Inl andthen_def)
      with se os(2) Inl show ?thesis by (intro exI [of _ os]) (auto simp: leads_def)
    next
      case (Inr v)
      with 3 assms br u have "push_part env c b s2 = (q, s')" by (simp add: push_once_parts seq_Inr andthen_def)
      then obtain k where k: "push_end s2 s' [(''push'', k)] (if k = Some 0 then beats (heartbeat_url c) else []) (k = Some 0)"
        using push_part_end by blast
      have "follows AtFetch (os @ [(''push'', k)])" "push_succeeded (os @ [(''push'', k)]) \<longleftrightarrow> k = Some 0"
        using os(2) Inr by (cases k; auto simp: phase_simps)+
      with push_end_trans [OF se k] show ?thesis by (intro exI [of _ "os @ [(''push'', k)]"]) simp
    qed
  qed
qed

section \<open>Properties\<close>

text \<open>
  C8: A push cycle never raises and follows the protocol, whatever git answers: fetch; rebase only
  after a fetch that succeeded; abort the rebase exactly when it failed; then push, also when the fetch
  failed. It runs nothing at all when there is nothing to push or no remote. It clears the mark of unpushed
  commits exactly when the push command succeeded, the heartbeat is requested exactly then, at most once,
  and only from a configured URL, and the cycle leaves the worker's health as it was.
\<close>

theorem push_protocol:
  assumes "maybe_push env c s = (r, s')"
  shows "r = Inr () \<and>
    (cmds (new_effects s s') = [] \<or>
       unpushed s \<and> remote c \<noteq> [] \<and> follows AtFetch (cmds (new_effects s s'))) \<and>
    (unpushed s' \<longleftrightarrow> unpushed s \<and> \<not> push_succeeded (cmds (new_effects s s'))) \<and>
    requests (new_effects s s') =
      (if push_succeeded (cmds (new_effects s s')) then beats (heartbeat_url c) else []) \<and>
    degraded_rc s' = degraded_rc s"
proof (cases "\<not> unpushed s \<or> remote c = []")
  case True
  with assms have "r = Inr ()" "s' = s" by (auto simp: maybe_push_def seq_def gets_def)
  then show ?thesis by (simp add: new_effects_def push_succeeded_def)
next
  case False
  obtain q s1 where p: "push_once env c s = (q, s1)" by (cases "push_once env c s")
  obtain os where os: "os = [] \<or> follows AtFetch os"
    and pe: "push_end s s1 os (if push_succeeded os then beats (heartbeat_url c) else []) (push_succeeded os)"
    using push_once_end [OF p] by blast
  have "r = Inr () \<and> (s' = s1 \<or> s' = s1\<lparr>trace := trace s1 @ [ELog Exception MPushCycleFailed]\<rparr>)"
    using assms False p
    by (auto simp: maybe_push_def seq_def gets_def attempt_def emit_def ret_def split: sum.splits exn.splits)
  then have r: "r = Inr ()"
    and pe': "push_end s s' os (if push_succeeded os then beats (heartbeat_url c) else []) (push_succeeded os)"
    using pe push_end_trans [OF pe push_end_log] by auto
  then obtain es where "trace s' = trace s @ es" "cmds es = os"
    "requests es = (if push_succeeded os then beats (heartbeat_url c) else [])" by (auto simp: push_end_def)
  moreover from this have "new_effects s s' = es" by (simp add: new_effects_eq)
  ultimately show ?thesis using r pe' os False by (auto simp: push_end_def)
qed

end
