(* ===== verification/WorkerRun.thy ===== *)
theory WorkerRun
  imports WorkerPush
begin

text \<open>
  The loop of the worker over any sequence of answers of its queue: it survives all of them, it
  never forgets a commit that still has to be pushed, it stays local without a remote, and it
  delivers what it has committed as soon as a push works. Then what the token and the identity of the
  configuration lead to.
\<close>

section \<open>Survival\<close>

lemma handle_event_never_raises: "never_raises (handle_event env y cfg c ev)"
  unfolding handle_event_def by (rule never_raises_attempt_any) simp

lemma maybe_push_never_raises: "never_raises (maybe_push env c)"
  by (rule never_raisesI) (metis push_protocol prod.collapse)

lemma run_iteration_never_raises: "never_raises (run_iteration env y cfg c answer)"
  unfolding run_iteration_def push_overdue_def
  by (auto split: option.split intro!: never_raises_andthen never_raises_seq never_raises_if
      handle_event_never_raises maybe_push_never_raises)

interpretation worker: fail_soft "run_iteration env y cfg c" for env y cfg c
  by unfold_locales (rule run_iteration_never_raises)

section \<open>No commit is forgotten\<close>

text \<open>Whether, after these commands, there is a commit that no push has delivered.\<close>

definition owes_step :: "bool \<Rightarrow> string \<times> int option \<Rightarrow> bool" where
  "owes_step b x = (if x = (''commit'', Some 0) then True else if x = (''push'', Some 0) then False else b)"

definition owes :: "(string \<times> int option) list \<Rightarrow> bool" where
  "owes os = foldl owes_step False os"

lemma owes_append: "owes (os @ ps) = foldl owes_step (owes os) ps"
  by (simp add: owes_def)

definition remembers :: "('w, 'z) worker_st_scheme \<Rightarrow> bool" where
  "remembers s \<longleftrightarrow> (owes (cmds (trace s)) \<longrightarrow> unpushed s)"

lemma owes_cycle: "cycle_shape os clean commits \<Longrightarrow> foldl owes_step b os \<Longrightarrow> b \<or> commits"
  by (auto simp: cycle_shape_def owes_step_def split: if_splits)

lemma follows_push_last:
  "follows ph os \<Longrightarrow> foldl owes_step b os \<longleftrightarrow> b \<and> \<not> push_succeeded os"
proof (induction ph os arbitrary: b rule: follows.induct)
  case (2 ph name r os)
  then have name: "ph \<noteq> Finished" "name = expected ph" and rest: "follows (next_phase ph r) os" by auto
  have last: "os = []" if "ph = AtPush"
    using rest that by (cases os; cases r) (auto simp: next_phase_def)
  have step: "owes_step b (name, r) \<longleftrightarrow> b \<and> \<not> (ph = AtPush \<and> r = Some 0)"
    using name by (cases ph) (auto simp: owes_step_def expected_def)
  have "push_succeeded ((name, r) # os) \<longleftrightarrow> (ph = AtPush \<and> r = Some 0) \<or> push_succeeded os"
    using name by (cases ph) (auto simp: push_succeeded_def expected_def)
  with 2(1) [OF rest] step show ?case by auto
qed (simp add: push_succeeded_def)

lemma trace_of_run:
  assumes "grows P m" and "m s = (r, s')"
  shows "cmds (trace s') = cmds (trace s) @ cmds (new_effects s s')"
  using grows_new(1) [OF assms] by (metis cmds_append)

text \<open>What the worker does locally: everything but talking to the remote or to a monitor.\<close>

definition local_effect :: "effect \<Rightarrow> bool" where
  "local_effect e \<longleftrightarrow>
     (case e of
        EGit argv r \<Rightarrow> subcommand argv \<in> {''add'', ''diff'', ''commit'', ''rev-parse''}
      | EHttp u t \<Rightarrow> False
      | _ \<Rightarrow> True)"

lemma local_log [simp]: "local_effect (ELog l m)"
  by (simp add: local_effect_def)

lemma local_git [simp]:
  "local_effect (EGit argv r) \<longleftrightarrow> subcommand argv \<in> {''add'', ''diff'', ''commit'', ''rev-parse''}"
  by (simp add: local_effect_def)

lemma git_dir_local: "grows local_effect (git_dir env g)"
  unfolding git_dir_def Let_def
  by (intro grow_intros)
     (auto split: option.split intro!: grow_intros grows_run_gitI simp: subcommand_def)

lemma record_failure_local: "grows local_effect (record_failure env c what code)"
  unfolding record_failure_def lock_note_def
  by (auto simp: Let_def intro!: grow_intros git_dir_local describe_present_silent)

lemma record_clean_local: "grows local_effect record_clean"
  unfolding record_clean_def by (auto intro!: grow_intros split: option.split)

lemma timed_local:
  "grows P h \<Longrightarrow> grows P m \<Longrightarrow> (\<And>x. grows P (k x)) \<Longrightarrow> grows P (timed h m k)"
  unfolding timed_def
  by (intro grow_intros) (auto split: option.split if_splits intro!: grow_intros simp: except_timeout_def)

lemma commit_local: "grows local_effect (commit env g m)"
  unfolding commit_def has_staged_def
  by (auto intro!: grow_intros grows_run_gitI simp: subcommand_def)

lemma stage_and_commit_local:
  "grows local_effect stage \<Longrightarrow> grows local_effect (stage_and_commit env c label stage message)"
  unfolding stage_and_commit_def Let_def has_staged_def
  by (auto intro!: timed_local record_failure_local record_clean_local commit_local grow_intros
      grows_run_gitI simp: subcommand_def)

lemma stamp_paths_local: "grows local_effect (stamp_paths env y ps)"
  by (rule grows_mono [OF stamp_paths_grows]) (auto simp: stamp_effect_def local_effect_def)

lemma handle_event_local: "grows local_effect (handle_event env y cfg c ev)"
  unfolding handle_event_def handle_mcp_write_def handle_sync_sweep_def sweep_message_def now_utc_def
    add_def add_all_def
  by (auto intro!: grow_intros stage_and_commit_local stamp_paths_local grows_run_gitI
      simp: except_any_def subcommand_def)

lemma ping_any: "grows (\<lambda>_. True) (ping env url)"
  by (rule grows_mono [OF ping_grows]) simp

lemma maybe_push_any: "grows (\<lambda>_. True) (maybe_push env c)"
  unfolding maybe_push_def push_once_def resolve_branch_def current_branch_def sync_remote_def
    rebase_part_def pushed_def fetch_def rebase_theirs_def rebase_abort_def push_def Let_def
  by (auto intro!: grow_intros grows_run_gitI ping_any split: option.split exn.splits)

lemma idle_event:
  assumes "\<not> (kind ev = MCP_WRITE \<and> paths ev \<noteq> [] \<or> kind ev = SYNC_SWEEP)"
  shows "handle_event env y cfg c ev s = (Inr (), s)"
  using assms by (auto simp: handle_event_def handle_mcp_write_def attempt_def ret_def)

lemma handle_event_remembers:
  assumes "remembers s"
  shows "remembers (snd (handle_event env y cfg c ev s))"
proof (cases "kind ev = MCP_WRITE \<and> paths ev \<noteq> [] \<or> kind ev = SYNC_SWEEP")
  case True
  obtain r s' where run: "handle_event env y cfg c ev s = (r, s')" by (cases "handle_event env y cfg c ev s")
  from event_cycle [OF run True] obtain clean commits where
    "cycle_shape (cmds (new_effects s s')) clean commits" "unpushed s' \<longleftrightarrow> unpushed s \<or> commits" by blast
  then have "remembers s'"
    using assms trace_of_run [OF handle_event_local run] owes_cycle
    unfolding remembers_def by (metis owes_append)
  with run show ?thesis by simp
qed (simp add: idle_event assms)

lemma maybe_push_remembers:
  assumes "remembers s"
  shows "remembers (snd (maybe_push env c s))"
proof -
  obtain r s' where run: "maybe_push env c s = (r, s')" by (cases "maybe_push env c s")
  note out = push_protocol [OF run]
  have "foldl owes_step b (cmds (new_effects s s')) \<longleftrightarrow> b \<and> \<not> push_succeeded (cmds (new_effects s s'))" for b
    using out follows_push_last by (auto simp: push_succeeded_def)
  then have "remembers s'"
    using assms out trace_of_run [OF maybe_push_any run] by (auto simp: remembers_def owes_append)
  with run show ?thesis by simp
qed

lemma push_overdue_run: "\<exists>b w. push_overdue env c s = (Inr b, s\<lparr>world := w\<rparr>)"
  by (cases "x_monotonic env (world s)") (auto simp: push_overdue_def seq_def sys_def gets_def ret_def)

text \<open>One iteration, split into its parts.\<close>

lemma run_iteration_cases:
  assumes "run_iteration env y cfg c answer s = (r, s')"
  obtains (quiet) "answer = None" "maybe_push env c s = (r, s')"
  | (event) ev s1 w where "answer = Some ev" "handle_event env y cfg c ev s = (Inr (), s1)"
      "r = Inr ()" "s' = s1\<lparr>world := w\<rparr>"
  | (busy) ev s1 w where "answer = Some ev" "handle_event env y cfg c ev s = (Inr (), s1)"
      "maybe_push env c (s1\<lparr>world := w\<rparr>) = (r, s')"
proof (cases answer)
  case None
  with assms show thesis by (intro quiet) (simp_all add: run_iteration_def)
next
  case (Some ev)
  obtain s1 where h: "handle_event env y cfg c ev s = (Inr (), s1)"
    using handle_event_never_raises [of env y cfg c ev] by (metis never_raises_def old.unit.exhaust)
  obtain b w where o: "push_overdue env c s1 = (Inr b, s1\<lparr>world := w\<rparr>)"
    using push_overdue_run [of env c s1] by blast
  have "(if b then maybe_push env c else ret ()) (s1\<lparr>world := w\<rparr>) = (r, s')"
    using assms Some h o by (simp add: run_iteration_def andthen_def seq_Inr)
  with Some h show thesis by (cases b) (auto intro: event busy)
qed

lemma run_iteration_remembers:
  assumes "remembers s"
  shows "remembers (snd (run_iteration env y cfg c answer s))"
proof -
  obtain r s' where run: "run_iteration env y cfg c answer s = (r, s')"
    by (cases "run_iteration env y cfg c answer s")
  then have "remembers s'"
  proof (cases rule: run_iteration_cases)
    case quiet
    with maybe_push_remembers [OF assms, of env c] show ?thesis by simp
  next
    case (event ev s1 w)
    with handle_event_remembers [OF assms, of env y cfg c ev] show ?thesis
      by (simp add: remembers_def)
  next
    case (busy ev s1 w)
    with handle_event_remembers [OF assms, of env y cfg c ev] have "remembers (s1\<lparr>world := w\<rparr>)"
      by (simp add: remembers_def)
    with maybe_push_remembers [OF this, of env c] busy show ?thesis by simp
  qed
  with run show ?thesis by simp
qed

interpretation keeper: fail_soft_inv "run_iteration env y cfg c" remembers for env y cfg c
  by unfold_locales (rule run_iteration_remembers)

section \<open>Properties\<close>

text \<open>
  C6: The worker thread survives every history. Whatever sequence of events and quiet windows its
  queue hands it, and whatever git, the file system, the clock and the monitor do or raise, the loop
  comes back to the queue, and it processes a later part of the history exactly as if it had begun
  in the state the earlier part left.
\<close>

theorem worker_survives:
  "(\<exists>s'. worker_run env y cfg c answers s = (Inr (), s')) \<and>
   worker_run env y cfg c (answers @ later) s =
     worker_run env y cfg c later (snd (worker_run env y cfg c answers s))"
proof
  show "\<exists>s'. worker_run env y cfg c answers s = (Inr (), s')"
    using worker.foreach_soft [where xs = answers and env = env and y = y and cfg = cfg and c = c]
    by (metis never_raises_def old.unit.exhaust worker_run_def)
  show "worker_run env y cfg c (answers @ later) s =
     worker_run env y cfg c later (snd (worker_run env y cfg c answers s))"
    unfolding worker_run_def by (rule worker.foreach_append)
qed

text \<open>
  No commit is forgotten. From a state in which the mark of unpushed commits is right, the worker
  reaches only such states: after any history, if some commit succeeded since the last push that
  succeeded, the mark is set, so that the next push cycle tries again.
\<close>

theorem no_commit_forgotten:
  assumes "owes (cmds (trace s)) \<longrightarrow> unpushed s"
    and "worker_run env y cfg c answers s = (r, s')"
    and "owes (cmds (trace s'))"
  shows "unpushed s'"
  using keeper.foreach_keeps [where s = s and env = env and y = y and cfg = cfg and c = c and xs = answers] assms
  by (simp add: remembers_def worker_run_def)

section \<open>Commit-only mode\<close>

lemma run_iteration_local:
  assumes "remote c = []"
  shows "grows local_effect (run_iteration env y cfg c answer)"
proof -
  have "grows local_effect (maybe_push env c)"
    unfolding maybe_push_def using assms by (auto intro!: grow_intros)
  then show ?thesis
    unfolding run_iteration_def push_overdue_def
    by (auto intro!: grow_intros handle_event_local split: option.split)
qed

text \<open>
  In commit-only mode (an empty remote) the worker is purely local: over any history, the only git
  commands it runs are \<^verbatim>\<open>add\<close>, \<^verbatim>\<open>diff\<close>, \<^verbatim>\<open>commit\<close> and \<^verbatim>\<open>rev-parse\<close>; it never fetches, rebases or pushes,
  and it makes no request to a monitor.
\<close>

theorem commit_only_stays_local:
  assumes "remote c = []" and "worker_run env y cfg c answers s = (r, s')"
    and "e \<in> set (new_effects s s')"
  shows "local_effect e"
proof -
  have "grows local_effect (worker_run env y cfg c answers)"
    unfolding worker_run_def by (rule grows_foreach) (rule run_iteration_local [OF assms(1)])
  then show ?thesis
    using grows_newD [where P = local_effect] assms(2,3) by blast
qed

section \<open>Delivery\<close>

text \<open>Every git process ends with an exit code.\<close>

definition git_answers :: "'w env \<Rightarrow> bool" where
  "git_answers env \<longleftrightarrow> (\<forall>argv w. \<exists>code out err w'. x_run env argv w = (Inr (code, out, err), w'))"

definition push_argv :: "worker_conf \<Rightarrow> string list" where
  "push_argv c = git_argv (git c) (credential_args (git c) @ [''push'', remote c, branch c])"

definition always_exits :: "'w env \<Rightarrow> string list \<Rightarrow> int \<Rightarrow> bool" where
  "always_exits env argv k \<longleftrightarrow> (\<forall>w. \<exists>out err w'. x_run env argv w = (Inr (k, out, err), w'))"

lemma run_git_answers:
  assumes "git_answers env"
  shows "never_raises (run_git env g args)"
proof (rule never_raisesI)
  fix s :: "('a, 'b) io_scheme"
  obtain code out err w' where "x_run env (git_argv g args) (world s) = (Inr (code, out, err), w')"
    using assms unfolding git_answers_def by blast
  then show "\<exists>x s'. run_git env g args s = (Inr x, s')" by (simp add: run_git_eq)
qed

lemma run_git_exits:
  assumes "always_exits env (git_argv g args) k"
  shows "\<exists>x s'. run_git env g args s = (Inr x, s') \<and> rc x = k"
proof -
  obtain out err w' where "x_run env (git_argv g args) (world s) = (Inr (k, out, err), w')"
    using assms unfolding always_exits_def by blast
  then show ?thesis by (simp add: run_git_eq)
qed

lemma sync_remote_answers: "git_answers env \<Longrightarrow> never_raises (sync_remote env c b)"
  unfolding sync_remote_def rebase_part_def fetch_def rebase_theirs_def rebase_abort_def
  by (intro never_raises_seq never_raises_if never_raises_andthen run_git_answers never_raises_ret
      never_raises_emit)

lemma maybe_push_delivers:
  fixes s :: "('w, 'z) worker_st_scheme"
  assumes "never_raises (sync_remote env c (branch c) :: ('w, 'z, unit) worker_prog)"
    and "always_exits env (push_argv c) 0"
    and "remote c \<noteq> []" and "branch c \<noteq> []" and "unpushed s" and "maybe_push env c s = (r, s')"
  shows "\<not> unpushed s' \<and> push_succeeded (cmds (new_effects s s'))"
proof -
  obtain s1 where s1: "sync_remote env c (branch c) s = (Inr (), s1)"
    using assms(1) by (metis never_raises_def old.unit.exhaust)
  obtain x s2 where x: "push env (git c) (remote c) (branch c) s1 = (Inr x, s2)" "rc x = 0"
    using run_git_exits assms(2) unfolding push_argv_def push_def by blast
  obtain q s3 where q: "pushed env c s2 = (q, s3)" by (cases "pushed env c s2")
  have "\<not> unpushed s3" using pushed_end [OF q] by (simp add: push_end_def)
  moreover have "push_once env c s = (q, s3)"
    using assms(4) s1 x q by (simp add: push_once_def resolve_branch_def seq_Inr andthen_def ok_def)
  ultimately have "\<not> unpushed s'"
    using assms(3,5,6)
    by (auto simp: maybe_push_def seq_def gets_def attempt_def emit_def ret_def split: sum.splits exn.splits)
  with push_protocol [OF assms(6)] assms(5) show ?thesis by blast
qed

text \<open>
  What was committed is delivered. With a remote and a branch configured, as long as every git
  process ends by itself and the push command succeeds, one quiet window of the queue is enough: the
  push is made and the mark of unpushed commits is cleared, even when the fetch fails (offline) or the
  rebase fails and is aborted, and whatever the monitor does.
\<close>

theorem quiet_window_delivers:
  assumes "git_answers env" and "always_exits env (push_argv c) 0"
    and "remote c \<noteq> []" and "branch c \<noteq> []" and "unpushed s"
    and "run_iteration env y cfg c None s = (r, s')"
  shows "\<not> unpushed s' \<and> push_succeeded (cmds (new_effects s s'))"
proof -
  have "maybe_push env c s = (r, s')" using assms(6) by (simp add: run_iteration_def)
  then show ?thesis by (rule maybe_push_delivers [OF sync_remote_answers [OF assms(1)] assms(2-5)])
qed

section \<open>One warning for a streak\<close>

definition is_cycle_warning :: "effect \<Rightarrow> bool" where
  "is_cycle_warning e \<longleftrightarrow> (\<exists>what code state note. e = ELog Warn (MCycleFailed what code state note))"

definition warnings :: "effect list \<Rightarrow> nat" where
  "warnings es = length (filter is_cycle_warning es)"

lemma warnings_append [simp]: "warnings (es @ fs) = warnings es + warnings fs"
  by (simp add: warnings_def)

lemma git_dir_no_warning: "grows (\<lambda>e. \<not> is_cycle_warning e) (git_dir env g)"
  unfolding git_dir_def Let_def
  by (intro grow_intros)
     (auto split: option.split intro!: grow_intros grows_run_gitI simp: is_cycle_warning_def)

lemma lock_note_no_warning: "grows (\<lambda>e. \<not> is_cycle_warning e) (lock_note env c)"
  unfolding lock_note_def by (auto intro!: grow_intros git_dir_no_warning describe_present_silent)

lemma no_warnings: "list_all (\<lambda>e. \<not> is_cycle_warning e) es \<Longrightarrow> warnings es = 0"
  by (simp add: warnings_def list_all_iff filter_empty_conv)

lemma record_failure_warns:
  assumes "record_failure env c what code s = (Inr (), s')"
  shows "\<exists>es. trace s' = trace s @ es \<and> warnings es = (if degraded_rc s = Some code then 0 else 1) \<and>
    degraded_rc s' = Some code"
proof (cases "degraded_rc s = Some code")
  case True
  then show ?thesis
    using assms
    by (auto simp: record_failure_def seq_def gets_def andthen_def emit_def modify_def warnings_def
        is_cycle_warning_def)
next
  case False
  then obtain nt s1 where n: "lock_note env c s = (Inr nt, s1)"
    using assms by (cases "lock_note env c s"; cases "fst (lock_note env c s)")
      (auto simp: record_failure_def seq_def gets_def andthen_def Let_def)
  note grown = grows_new [OF lock_note_no_warning n]
  from False n assms obtain state where "degraded_rc s' = Some code"
    "trace s' = trace s1 @ [ELog Warn (MCycleFailed what code state nt)]"
    by (auto simp: record_failure_def seq_def gets_def andthen_def emit_def modify_def Let_def)
  moreover have "warnings [ELog Warn (MCycleFailed what code state nt)] = 1"
    by (simp add: warnings_def is_cycle_warning_def)
  ultimately show ?thesis
    using grown no_warnings [OF grown(2)] False
    by (intro exI [of _ "new_effects s s1 @ [ELog Warn (MCycleFailed what code state nt)]"]) auto
qed

text \<open>
  C28: A streak of failures is one warning, not one per cycle. Over any sequence of recorded failures,
  the number of warnings is the number of times the failure code changes, counting the state the worker
  was in before; the repeats only leave debug lines, and the worker stays degraded with the last code.
\<close>

theorem one_warning_per_streak:
  assumes "foreach fs (\<lambda>f. record_failure env c (fst f) (snd f)) s = (Inr (), s')"
  shows "warnings (new_effects s s') = length (remdups_adj (degraded_rc s # map (\<lambda>f. Some (snd f)) fs)) - 1 \<and>
    degraded_rc s' = last (degraded_rc s # map (\<lambda>f. Some (snd f)) fs)"
proof -
  have "\<exists>es. trace s' = trace s @ es \<and>
      warnings es = length (remdups_adj (degraded_rc s # map (\<lambda>f. Some (snd f)) fs)) - 1 \<and>
      degraded_rc s' = last (degraded_rc s # map (\<lambda>f. Some (snd f)) fs)"
    using assms
  proof (induction fs arbitrary: s)
    case Nil
    then show ?case by (simp add: warnings_def)
  next
    case (Cons f fs)
    then obtain s1 where f: "record_failure env c (fst f) (snd f) s = (Inr (), s1)"
      and rest: "foreach fs (\<lambda>f. record_failure env c (fst f) (snd f)) s1 = (Inr (), s')"
      by (auto simp: andthen_eq_Inr)
    obtain es where es: "trace s1 = trace s @ es"
      "warnings es = (if degraded_rc s = Some (snd f) then 0 else 1)" "degraded_rc s1 = Some (snd f)"
      using record_failure_warns [OF f] by blast
    obtain gs where gs: "trace s' = trace s1 @ gs"
      "warnings gs = length (remdups_adj (degraded_rc s1 # map (\<lambda>f. Some (snd f)) fs)) - 1"
      "degraded_rc s' = last (degraded_rc s1 # map (\<lambda>f. Some (snd f)) fs)"
      using Cons.IH [OF rest] by blast
    have "0 < length (remdups_adj (Some (snd f) # map (\<lambda>f. Some (snd f)) fs))" by simp
    with es gs show ?case
      by (intro exI [of _ "es @ gs"]) (auto simp del: remdups_adj.simps(2) simp: remdups_adj.simps(3))
  qed
  then show ?thesis by (auto simp: new_effects_eq)
qed

section \<open>The token stays out\<close>

text \<open>
  C23: The push token influences nothing but its own presence. Two configurations that differ only in the
  value of the token (both set, or both unset) lead to the same worker, the same validation and the same
  run over every history: no argument of a git command, no log line and no file depends on it.
\<close>

theorem token_stays_out:
  assumes "cfg' = cfg\<lparr>VAULT_GIT_TOKEN := t\<rparr>" and "strip t = [] \<longleftrightarrow> token cfg = []"
  shows "from_config cfg' = from_config cfg \<and>
    validate_gitsync env cfg' s = validate_gitsync env cfg s \<and>
    worker_run env y cfg' c answers (s' :: ('w, 'z) worker_st_scheme) = worker_run env y cfg c answers s'"
proof -
  have tok: "token cfg' = [] \<longleftrightarrow> token cfg = []" using assms by (simp add: token_def)
  have same: "VAULT_PATH cfg' = VAULT_PATH cfg" "cfg_remote cfg' = cfg_remote cfg"
    "cfg_branch cfg' = cfg_branch cfg" "cfg_push_debounce cfg' = cfg_push_debounce cfg"
    "cfg_push_max_interval cfg' = cfg_push_max_interval cfg" "author_name cfg' = author_name cfg"
    "author_email cfg' = author_email cfg" "cfg_heartbeat_url cfg' = cfg_heartbeat_url cfg"
    "stamp_enabled cfg' = stamp_enabled cfg" "is_enabled cfg' = is_enabled cfg"
    "VAULT_GIT_SWEEP_INTERVAL cfg' = VAULT_GIT_SWEEP_INTERVAL cfg"
    "VAULT_GIT_PUSH_DEBOUNCE cfg' = VAULT_GIT_PUSH_DEBOUNCE cfg"
    "VAULT_GIT_PUSH_MAX_INTERVAL cfg' = VAULT_GIT_PUSH_MAX_INTERVAL cfg"
    unfolding assms(1)
    by (simp_all add: cfg_remote_def cfg_branch_def cfg_push_debounce_def cfg_push_max_interval_def
        author_name_def author_email_def cfg_heartbeat_url_def stamp_enabled_def is_enabled_def)
  have "handle_event env y cfg' c = (handle_event env y cfg c :: sync_event \<Rightarrow> ('w, 'z, unit) worker_prog)"
    by (rule ext) (simp add: handle_event_def handle_mcp_write_def same)
  then have "worker_run env y cfg' c answers = (worker_run env y cfg c answers :: ('w, 'z, unit) worker_prog)"
    by (simp add: worker_run_def run_iteration_def [abs_def])
  moreover have "from_config cfg' = from_config cfg"
  proof -
    have git_same: "git_from_config cfg' = git_from_config cfg"
      by (simp add: git_from_config_def same tok)
    show ?thesis unfolding from_config_def git_same same by (rule refl)
  qed
  moreover have "validate_gitsync env cfg' s = validate_gitsync env cfg s"
    unfolding validate_gitsync_def check_vault_def check_interval_def check_remote_def get_url_argv_def
      check_identity_def ident_argv_def cfg_identity_args_def check_heartbeat_def same tok by (rule refl)
  ultimately show ?thesis by simp
qed

section \<open>One identity\<close>

text \<open>The question of the validation and the commit ask for the same author.\<close>

lemma same_identity: "identity_args (git_from_config cfg) = cfg_identity_args cfg"
  by (auto simp: identity_args_def cfg_identity_args_def git_from_config_def author_name_def author_email_def
      or_none_def)

lemma ident_argv_prefix:
  "ident_argv cfg = [''git'', ''-C'', path_str (VAULT_PATH cfg)] @ cfg_identity_args cfg @ [''var'', ''GIT_AUTHOR_IDENT'']"
  by (simp add: ident_argv_def)

text \<open>
  C30: Commits are made under the identity that was validated. The argument vector of every commit is, up to the
  subcommand, the one with which the validation asked git for the author: the same vault and the same
  settings of the name and the address.
\<close>

theorem commit_uses_validated_identity:
  assumes "from_config cfg = Some c" and "commit env (git c) m s = (r, s')"
    and "EGit argv k \<in> set (new_effects s s')" and "subcommand argv = ''commit''"
  shows "\<exists>pre. ident_argv cfg = pre @ [''var'', ''GIT_AUTHOR_IDENT''] \<and> argv = pre @ [''commit'', ''-m'', m]"
proof -
  define P where "P e \<longleftrightarrow> (case e of
      EGit a k \<Rightarrow> subcommand a = ''commit'' \<longrightarrow> a = git_argv (git c) (identity_args (git c) @ [''commit'', ''-m'', m])
    | _ \<Rightarrow> True)" for e
  have "grows P (commit env (git c) m)"
    unfolding commit_def has_staged_def
    by (auto intro!: grow_intros grows_run_gitI simp: P_def subcommand_def)
  from grows_newD [OF this assms(2,3)] assms(4)
  have argv: "argv = git_argv (git c) (identity_args (git c) @ [''commit'', ''-m'', m])" by (simp add: P_def)
  have g: "git c = git_from_config cfg" using assms(1) by (auto simp: from_config_def split: option.splits)
  have "identity_args (git c) = cfg_identity_args cfg" unfolding g by (rule same_identity)
  moreover have "vault (git c) = VAULT_PATH cfg" unfolding g by (simp add: git_from_config_def)
  ultimately show ?thesis
    by (intro exI [of _ "[''git'', ''-C'', path_str (VAULT_PATH cfg)] @ cfg_identity_args cfg"])
       (simp add: argv git_argv_def ident_argv_prefix)
qed

end
