(* ===== verification/WorkerHealth.thy ===== *)
theory WorkerHealth
  imports WorkerRun
begin

text \<open>
  What the log says about the health of the worker: a sweep that leaves it healthy is silent, and the
  log lines of a cycle name what went wrong.
\<close>

section \<open>Severity\<close>

text \<open>An effect that is no log line of the level \<^verbatim>\<open>warning\<close> or above.\<close>

definition calm :: "effect \<Rightarrow> bool" where
  "calm e \<longleftrightarrow> (case e of ELog l m \<Rightarrow> l < Warn | _ \<Rightarrow> True)"

lemma calm_simps [simp]: "calm (EGit argv r)" "calm (ELog l m) \<longleftrightarrow> l < Warn"
  by (simp_all add: calm_def)

lemma below_warn [simp]: "Debug < Warn" "Info < Warn"
  by (simp_all add: less_log_level_def)

text \<open>A command of git that ends: one effect, and a result.\<close>

lemma run_git_ends:
  assumes "git_answers env"
  obtains x s' where "run_git env g args s = (Inr x, s')"
    "trace s' = trace s @ [EGit (git_argv g args) (Some (rc x))]"
proof -
  obtain code out err w' where "x_run env (git_argv g args) (world s) = (Inr (code, out, err), w')"
    using assms unfolding git_answers_def by blast
  then have "run_git env g args s = (Inr \<lparr>rc = code, stdout = out, stderr = err\<rparr>,
      s\<lparr>world := w', trace := trace s @ [EGit (git_argv g args) (Some code)]\<rparr>)"
    by (simp add: run_git_eq)
  then show thesis by (rule that) simp
qed

lemma has_staged_ends:
  assumes "git_answers env"
  obtains b s' where "has_staged env g s = (Inr b, s')" "\<exists>e. trace s' = trace s @ [e] \<and> calm e"
proof -
  obtain x s' where "run_git env g [''diff'', ''--cached'', ''--quiet''] s = (Inr x, s')"
    "trace s' = trace s @ [EGit (git_argv g [''diff'', ''--cached'', ''--quiet'']) (Some (rc x))]"
    by (rule run_git_ends [OF assms])
  then show thesis by (intro that [of "\<not> ok x" s']) (simp_all add: has_staged_def seq_def ret_def)
qed

text \<open>\<open>hushed s s'\<close>: from \<open>s\<close> to \<open>s'\<close> nothing of the level \<^verbatim>\<open>warning\<close> was logged.\<close>

definition hushed :: "('w, 'z) io_scheme \<Rightarrow> ('w, 'z) io_scheme \<Rightarrow> bool" where
  "hushed s s' \<longleftrightarrow> (\<exists>es. trace s' = trace s @ es \<and> list_all calm es)"

lemma hushed_trans [trans]: "hushed s s1 \<Longrightarrow> hushed s1 s2 \<Longrightarrow> hushed s s2"
  unfolding hushed_def by (metis append.assoc list_all_append)

lemma hushed_one: "\<exists>e. trace s' = trace s @ [e] \<and> calm e \<Longrightarrow> hushed s s'"
  unfolding hushed_def by (metis list.pred_inject)

lemma commit_ends:
  assumes "git_answers env"
  obtains x s' where "commit env g m s = (Inr x, s')" "hushed s s'"
proof -
  obtain b s1 where h: "has_staged env g s = (Inr b, s1)" "\<exists>e. trace s1 = trace s @ [e] \<and> calm e"
    by (rule has_staged_ends [OF assms])
  show thesis
  proof (cases b)
    case False
    with h(1) hushed_one [OF h(2)] show thesis by (intro that) (simp_all add: commit_def seq_Inr ret_def)
  next
    case True
    obtain x s2 where x: "run_git env g (identity_args g @ [''commit'', ''-m'', m]) s1 = (Inr x, s2)"
      "trace s2 = trace s1 @ [EGit (git_argv g (identity_args g @ [''commit'', ''-m'', m])) (Some (rc x))]"
      by (rule run_git_ends [OF assms])
    from x(2) have "hushed s1 s2" by (intro hushed_one) simp
    with hushed_one [OF h(2)] have "hushed s s2" by (rule hushed_trans)
    with True h(1) x(1) show thesis by (intro that) (simp_all add: commit_def seq_Inr)
  qed
qed

lemma record_failure_degrades: "record_failure env c what code s = (Inr (), s') \<Longrightarrow> degraded s'"
  using record_failure_warns by (fastforce simp: degraded_def)

lemma record_clean_hushed:
  assumes "record_clean s = (r, s')"
  shows "hushed s s'"
proof -
  have "grows calm record_clean"
    unfolding record_clean_def by (auto intro!: grow_intros split: option.split)
  from grows_new [OF this assms] show ?thesis unfolding hushed_def by blast
qed

lemma timed_Inr: "m s = (Inr x, s1) \<Longrightarrow> timed h m k s = k x s1"
  by (simp add: timed_def seq_def attempt_def ret_def)

text \<open>Recording a failure, also one that is interrupted by a timeout, degrades the worker if it returns.\<close>

lemma timed_failure_degrades:
  assumes "timed (record_failure env c l Timeout) (record_failure env c what code) ret s = (Inr (), s')"
  shows "degraded s'"
proof -
  obtain r s1 where f: "record_failure env c what code s = (r, s1)" by (cases "record_failure env c what code s")
  show ?thesis
  proof (cases r)
    case (Inr u)
    with f assms have "s' = s1" by (simp add: timed_Inr ret_def)
    with f Inr show ?thesis using record_failure_degrades [of env c what code s s1] by simp
  next
    case (Inl e)
    with f assms obtain s2 where "record_failure env c l Timeout s1 = (Inr (), s2)" "s' = s2"
      by (auto simp: timed_def seq_def attempt_def except_timeout_def andthen_def ret_def
          split: if_splits prod.splits sum.splits)
    then show ?thesis using record_failure_degrades [of env c l Timeout s1 s2] by simp
  qed
qed

lemma stage_and_commit_hushed:
  assumes "git_answers env" and "stage s = (Inr staged, s1)" and "hushed s s1"
    and "stage_and_commit env c label stage message s = (Inr (), s')" and "\<not> degraded s'"
  shows "hushed s s'"
proof (cases "ok staged")
  case False
  with assms(2,4) have "timed (record_failure env c (label @ '' stage'') Timeout)
      (record_failure env c (label @ '' stage'') (Rc (rc staged))) ret s1 = (Inr (), s')"
    by (simp add: stage_and_commit_def Let_def timed_Inr)
  with assms(5) timed_failure_degrades show ?thesis by blast
next
  case True
  obtain b s2 where h: "has_staged env (git c) s1 = (Inr b, s2)" "\<exists>e. trace s2 = trace s1 @ [e] \<and> calm e"
    by (rule has_staged_ends [OF assms(1)])
  have 2: "hushed s s2" using assms(3) hushed_one [OF h(2)] by (rule hushed_trans)
  show ?thesis
  proof (cases b)
    case False
    with True assms(2,4) h(1) have "record_clean s2 = (Inr (), s')"
      by (simp add: stage_and_commit_def Let_def timed_Inr)
    from hushed_trans [OF 2 record_clean_hushed [OF this]] show ?thesis .
  next
    case staged: True
    obtain x s3 where x: "commit env (git c) message s2 = (Inr x, s3)" "hushed s2 s3"
      by (rule commit_ends [OF assms(1)])
    show ?thesis
    proof (cases "ok x")
      case False
      with True staged assms(2,4) h(1) x(1) have "timed (record_failure env c (label @ '' commit'') Timeout)
          (record_failure env c (label @ '' commit'') (Rc (rc x))) ret s3 = (Inr (), s')"
        by (simp add: stage_and_commit_def Let_def timed_Inr)
      with assms(5) timed_failure_degrades show ?thesis by blast
    next
      case committed: True
      with True staged assms(2,4) h(1) x(1) have "record_clean (s3\<lparr>unpushed := True\<rparr>) = (Inr (), s')"
        by (simp add: stage_and_commit_def Let_def timed_Inr andthen_def seq_def modify_def)
      from record_clean_hushed [OF this] have "hushed s3 s'" by (simp add: hushed_def)
      with hushed_trans [OF 2 x(2)] show ?thesis by (rule hushed_trans)
    qed
  qed
qed

section \<open>Properties\<close>

text \<open>
  No news is good news. When git processes end by themselves, a sweep that returns and leaves the worker
  healthy has logged nothing at the level of a warning or above: a warning always comes with a worker that knows it is degraded.
\<close>

theorem healthy_sweep_is_silent:
  assumes "git_answers env" and "handle_sync_sweep env c s = (Inr (), s')" and "\<not> degraded s'"
    and "ELog l m \<in> set (new_effects s s')"
  shows "l < Warn"
proof -
  obtain w where w: "sweep_message env s = (Inr (''sync: auto '' @ format_ts (fst (x_utcnow env (world s)))), s\<lparr>world := w\<rparr>)"
    by (cases "x_utcnow env (world s)") (simp add: sweep_message_def now_utc_def seq_def sys_def ret_def)
  obtain x s1 where x: "run_git env (git c) [''add'', ''-A''] (s\<lparr>world := w\<rparr>) = (Inr x, s1)"
    "trace s1 = trace (s\<lparr>world := w\<rparr>) @ [EGit (git_argv (git c) [''add'', ''-A'']) (Some (rc x))]"
    by (rule run_git_ends [OF assms(1)])
  then have add: "add_all env (git c) (s\<lparr>world := w\<rparr>) = (Inr x, s1)" by (simp add: add_all_def)
  have "hushed (s\<lparr>world := w\<rparr>) s1" using x(2) by (intro hushed_one) simp
  moreover have "stage_and_commit env c ''sweep'' (add_all env (git c))
      (''sync: auto '' @ format_ts (fst (x_utcnow env (world s)))) (s\<lparr>world := w\<rparr>) = (Inr (), s')"
    using assms(2) w by (simp add: handle_sync_sweep_def seq_Inr)
  ultimately have "hushed (s\<lparr>world := w\<rparr>) s'"
    using stage_and_commit_hushed [where stage = "add_all env (git c)", OF assms(1) add _ _ assms(3)] by blast
  then obtain es where "trace s' = trace s @ es" "list_all calm es" by (auto simp: hushed_def)
  with assms(4) have "calm (ELog l m)" by (auto simp: new_effects_def list_all_iff)
  then show ?thesis by simp
qed

text \<open>
  C40: An interrupted rebase is left as it is. A rebase that fails is aborted, but when the rebase runs into the
  timeout, the push cycle ends there: it returns, the commits stay marked as unpushed, and neither
  \<^verbatim>\<open>rebase --abort\<close> nor \<^verbatim>\<open>push\<close> is run after the fetch and the rebase.
\<close>

theorem rebase_timeout_skips_abort:
  assumes "remote c \<noteq> []" and "branch c \<noteq> []" and "unpushed s"
    and "x_run env (git_argv (git c) (credential_args (git c) @ [''fetch'', remote c])) (world s) = (Inr (0, out, err), w)"
    and "x_run env (git_argv (git c) [''rebase'', ''-X'', ''theirs'', remote c @ ''/'' @ branch c]) w = (Inl TimeoutExpired, w')"
  shows "\<exists>s'. maybe_push env c s = (Inr (), s') \<and> unpushed s' \<and>
    cmds (new_effects s s') = [(''fetch'', Some 0), (''rebase'', None)]"
  using assms
  by (simp add: maybe_push_def push_once_def resolve_branch_def sync_remote_def fetch_def rebase_part_def
      rebase_theirs_def seq_def andthen_def attempt_def gets_def ret_def run_git_eq ok_def new_effects_def cmds_def
      subcommand_def)

end
