(* ===== verification/Worlds.thy ===== *)
theory Worlds
  imports GitOps
begin

text \<open>
  What a run does to the world. A theorem about the outside (the vault, its repository) is about an
  order on worlds: "from here to there only this can have changed". The calculus below derives that a
  program moves the world along such an order from what its single calls do.
\<close>

definition moves :: "('w \<Rightarrow> 'w \<Rightarrow> bool) \<Rightarrow> (('w, 'z) io_scheme, 'a) prog \<Rightarrow> bool" where
  "moves R m \<longleftrightarrow> (\<forall>s. R (world s) (world (snd (m s))))"

lemma movesD: "moves R m \<Longrightarrow> m s = (r, s') \<Longrightarrow> R (world s) (world s')"
  unfolding moves_def by (metis snd_conv)

lemma moves_mono: "moves R m \<Longrightarrow> (\<And>w w'. R w w' \<Longrightarrow> R' w w') \<Longrightarrow> moves R' m"
  by (simp add: moves_def)

locale world_order =
  fixes R :: "'w \<Rightarrow> 'w \<Rightarrow> bool"
  assumes refl: "R w w"
    and trans: "R w w1 \<Longrightarrow> R w1 w2 \<Longrightarrow> R w w2"
begin

lemma moves_ret: "moves R (ret x)"
  by (simp add: moves_def ret_def refl)

lemma moves_throw: "moves R (throw e)"
  by (simp add: moves_def throw_def refl)

lemma moves_of_sum: "moves R (of_sum r)"
  by (simp add: moves_def refl)

lemma moves_gets: "moves R (gets f)"
  by (simp add: moves_def gets_def refl)

lemma moves_modify: "(\<And>s. world (f s) = world s) \<Longrightarrow> moves R (modify f)"
  by (simp add: moves_def modify_def refl)

lemma moves_emit: "moves R (emit e)"
  by (simp add: moves_def emit_def refl)

lemma moves_sys: "(\<And>w. R w (snd (f w))) \<Longrightarrow> moves R (sys f)"
  by (simp add: moves_def sys_def split: prod.split) (metis snd_conv)

lemma moves_sys_try: "(\<And>w. R w (snd (f w))) \<Longrightarrow> moves R (sys_try f)"
  by (simp add: moves_def sys_try_def split: prod.split) (metis snd_conv)

lemma moves_run_git: "(\<And>w. R w (snd (x_run env (git_argv g args) w))) \<Longrightarrow> moves R (run_git env g args)"
  by (simp add: moves_def run_git_eq split: prod.split sum.split) (metis snd_conv)

lemma moves_seq:
  assumes "moves R m" and "\<And>x. moves R (f x)"
  shows "moves R (seq m f)"
  unfolding moves_def
proof
  fix s
  obtain r s1 where run: "m s = (r, s1)" by (cases "m s")
  have 1: "R (world s) (world s1)" by (rule movesD [OF assms(1) run])
  show "R (world s) (world (snd (seq m f s)))"
  proof (cases r)
    case (Inl e)
    with run 1 show ?thesis by (simp add: seq_def)
  next
    case (Inr x)
    have "R (world s1) (world (snd (f x s1)))" using assms(2) by (simp add: moves_def)
    with run Inr 1 show ?thesis by (auto simp: seq_def intro: trans)
  qed
qed

lemma moves_andthen: "moves R m \<Longrightarrow> moves R m' \<Longrightarrow> moves R (andthen m m')"
  by (simp add: andthen_def moves_seq)

lemma moves_attempt:
  assumes "moves R m" and "\<And>e m'. h e = Some m' \<Longrightarrow> moves R m'"
  shows "moves R (attempt m h)"
  unfolding moves_def
proof
  fix s
  obtain r s1 where run: "m s = (r, s1)" by (cases "m s")
  have 1: "R (world s) (world s1)" by (rule movesD [OF assms(1) run])
  show "R (world s) (world (snd (attempt m h s)))"
  proof (cases "\<exists>e m'. r = Inl e \<and> h e = Some m'")
    case True
    then obtain e m' where e: "r = Inl e" "h e = Some m'" by blast
    have "R (world s1) (world (snd (m' s1)))" using assms(2) [OF e(2)] by (simp add: moves_def)
    with run e 1 show ?thesis by (auto simp: attempt_def intro: trans)
  next
    case False
    with run 1 show ?thesis by (cases r) (auto simp: attempt_def split: option.split)
  qed
qed

lemma moves_if: "moves R m \<Longrightarrow> moves R m' \<Longrightarrow> moves R (if b then m else m')"
  by simp

lemma moves_foreach: "(\<And>x. moves R (f x)) \<Longrightarrow> moves R (foreach xs f)"
  by (induction xs) (auto intro: moves_ret moves_andthen)

lemma moves_collect: "(\<And>x. moves R (f x)) \<Longrightarrow> moves R (collect xs f)"
  by (induction xs) (auto intro: moves_ret moves_seq)

lemma moves_read_text: "(\<And>w. R w (snd (x_read env p w))) \<Longrightarrow> moves R (read_text env p)"
  unfolding read_text_def by (intro moves_seq moves_sys_try moves_ret)

lemmas moves_intros =
  moves_ret moves_throw moves_of_sum moves_gets moves_modify moves_emit moves_sys moves_sys_try
  moves_seq moves_andthen moves_attempt moves_if moves_foreach moves_collect moves_read_text

end

end
