(* ===== verification/GitRepo.thy ===== *)
theory GitRepo
  imports WorkerHealth Worlds
begin

text \<open>
  The repository behind the vault. git is not part of the package, and nothing here defines it: a \<open>view\<close>
  says which repository a world holds, and what git documents about the commands that the worker runs is
  stated as laws about that view, \<open>git_laws\<close>. Theorems about what becomes of the notes assume these laws; the
  examples give a concrete machine that satisfies them.
\<close>

section \<open>Repositories\<close>

text \<open>
  A revision is identified by what it holds, as a commit is by its hash: the files of the vault (paths relative
  to the vault, with their contents), the message, and its parent.
\<close>

datatype revision = Revision (rev_files: "string \<rightharpoonup> string") (rev_subject: string) (rev_parent: "revision option")

fun ancestry :: "revision \<Rightarrow> revision list" where
  "ancestry (Revision c m p) = Revision c m p # (case p of None \<Rightarrow> [] | Some q \<Rightarrow> ancestry q)"

text \<open>
  \<open>files\<close>: the working tree, as far as git takes notice of it (no ignored files). \<open>index\<close>: what is staged.
  \<open>tip\<close>: the revision that is checked out, \<open>None\<close> before the first. \<open>on_branch\<close>: the branch that is checked
  out, \<open>None\<close> for a detached head (in the middle of a rebase, say). \<open>remote_has\<close>: the revisions that the branches
  of the remote reach.
\<close>

record repo =
  files :: "string \<rightharpoonup> string"
  index :: "string \<rightharpoonup> string"
  tip :: "revision option"
  on_branch :: "string option"
  remote_has :: "revision set"

definition history :: "repo \<Rightarrow> revision list" where
  "history r = (case tip r of None \<Rightarrow> [] | Some k \<Rightarrow> ancestry k)"

definition head_files :: "repo \<Rightarrow> string \<rightharpoonup> string" where
  "head_files r = (case tip r of None \<Rightarrow> Map.empty | Some k \<Rightarrow> rev_files k)"

text \<open>Everything that is committed is on the remote.\<close>

definition delivered :: "repo \<Rightarrow> bool" where
  "delivered r \<longleftrightarrow> set (history r) \<subseteq> remote_has r"

section \<open>What may change\<close>

text \<open>
  Between any two worlds of the system the remote keeps what it has (nobody removes published history).
  \<open>anchored\<close>: in addition the same revision and branch are checked out; \<open>steady\<close>: the index is the same as well.
  The files of the vault may change all the time.
\<close>

definition published :: "('w \<Rightarrow> repo) \<Rightarrow> 'w \<Rightarrow> 'w \<Rightarrow> bool" where
  "published v w w' \<longleftrightarrow> remote_has (v w) \<subseteq> remote_has (v w')"

definition anchored :: "('w \<Rightarrow> repo) \<Rightarrow> 'w \<Rightarrow> 'w \<Rightarrow> bool" where
  "anchored v w w' \<longleftrightarrow> tip (v w') = tip (v w) \<and> on_branch (v w') = on_branch (v w) \<and> published v w w'"

definition steady :: "('w \<Rightarrow> repo) \<Rightarrow> 'w \<Rightarrow> 'w \<Rightarrow> bool" where
  "steady v w w' \<longleftrightarrow> index (v w') = index (v w) \<and> anchored v w w'"

interpretation published: world_order "published v" for v
  by unfold_locales (auto simp: published_def)

interpretation anchored: world_order "anchored v" for v
  by unfold_locales (auto simp: anchored_def published_def)

interpretation steady: world_order "steady v" for v
  by unfold_locales (auto simp: steady_def anchored_def published_def)

lemma steady_anchored: "steady v w w' \<Longrightarrow> anchored v w w'"
  by (simp add: steady_def)

lemma anchored_head: "anchored v w w' \<Longrightarrow> head_files (v w') = head_files (v w)"
  by (simp add: anchored_def head_files_def)

lemma anchored_delivered: "anchored v w w' \<Longrightarrow> delivered (v w) \<Longrightarrow> delivered (v w')"
  by (auto simp: anchored_def published_def delivered_def history_def)

lemma anchored_branch: "anchored v w w' \<Longrightarrow> on_branch (v w') = on_branch (v w)"
  by (simp add: anchored_def)

section \<open>What git documents\<close>

text \<open>A path that git does not read as a pathspec with magic.\<close>

definition plain_path :: "string \<Rightarrow> bool" where
  "plain_path p \<longleftrightarrow> p \<noteq> [] \<and> hd p \<noteq> CHR '':''"

text \<open>
  \<open>stages v w w' p\<close>: a path that nobody touched while the command ran is staged as it is; if it is gone,
  its removal is.
\<close>

definition stages :: "('w \<Rightarrow> repo) \<Rightarrow> 'w \<Rightarrow> 'w \<Rightarrow> string \<Rightarrow> bool" where
  "stages v w w' p \<longleftrightarrow> (files (v w) p = files (v w') p \<longrightarrow> index (v w') p = files (v w) p)"

abbreviation add_all_argv :: "git_conf \<Rightarrow> string list" where
  "add_all_argv g \<equiv> git_argv g [''add'', ''-A'']"

abbreviation add_argv :: "git_conf \<Rightarrow> string list \<Rightarrow> string list" where
  "add_argv g ps \<equiv> git_argv g ([''add'', ''-A'', ''--''] @ ps)"

abbreviation fetch_argv :: "git_conf \<Rightarrow> string \<Rightarrow> string list" where
  "fetch_argv g rem \<equiv> git_argv g (credential_args g @ [''fetch'', rem])"

abbreviation rebase_argv :: "git_conf \<Rightarrow> string \<Rightarrow> string \<Rightarrow> string list" where
  "rebase_argv g rem b \<equiv> git_argv g [''rebase'', ''-X'', ''theirs'', rem @ ''/'' @ b]"

abbreviation abort_argv :: "git_conf \<Rightarrow> string list" where
  "abort_argv g \<equiv> git_argv g [''rebase'', ''--abort'']"

abbreviation commit_argv :: "git_conf \<Rightarrow> string \<Rightarrow> string list" where
  "commit_argv g m \<equiv> git_argv g (identity_args g @ [''commit'', ''-m'', m])"

definition law_add :: "'w env \<Rightarrow> git_conf \<Rightarrow> ('w \<Rightarrow> repo) \<Rightarrow> bool" where
  "law_add env g v \<longleftrightarrow>
     (\<forall>w r w'. x_run env (add_all_argv g) w = (r, w') \<longrightarrow>
        anchored v w w' \<and> (\<forall>out err. r = Inr (0, out, err) \<longrightarrow> (\<forall>p. stages v w w' p))) \<and>
     (\<forall>ps w r w'. x_run env (add_argv g ps) w = (r, w') \<longrightarrow>
        anchored v w w' \<and>
        (\<forall>out err. r = Inr (0, out, err) \<longrightarrow> (\<forall>p \<in> set ps. plain_path p \<longrightarrow> stages v w w' p)))"

text \<open>\<^verbatim>\<open>diff --cached --quiet\<close> only looks, and exit code 0 says that the index is the checked out revision.\<close>

definition law_diff :: "'w env \<Rightarrow> git_conf \<Rightarrow> ('w \<Rightarrow> repo) \<Rightarrow> bool" where
  "law_diff env g v \<longleftrightarrow>
     (\<forall>w r w'. x_run env (git_argv g [''diff'', ''--cached'', ''--quiet'']) w = (r, w') \<longrightarrow>
        steady v w w' \<and> (\<forall>out err. r = Inr (0, out, err) \<longrightarrow> index (v w') = head_files (v w')))"

text \<open>
  A commit that succeeds records the index on top of the checked out revision; one that fails changes nothing. (There
  are no hooks that change the index.)
\<close>

definition law_commit :: "'w env \<Rightarrow> git_conf \<Rightarrow> ('w \<Rightarrow> repo) \<Rightarrow> bool" where
  "law_commit env g v \<longleftrightarrow>
     (\<forall>m w k out err w'. x_run env (commit_argv g m) w = (Inr (k, out, err), w') \<longrightarrow>
        index (v w') = index (v w) \<and> on_branch (v w') = on_branch (v w) \<and> published v w w' \<and>
        (if k = 0 then (\<exists>t. tip (v w') = Some (Revision (index (v w)) t (tip (v w)))) else tip (v w') = tip (v w)))"

text \<open>Fetching and the questions of \<^verbatim>\<open>rev-parse\<close> leave the local side as it is, the latter name the branch.\<close>

definition law_look :: "'w env \<Rightarrow> git_conf \<Rightarrow> string \<Rightarrow> ('w \<Rightarrow> repo) \<Rightarrow> bool" where
  "law_look env g rem v \<longleftrightarrow>
     (\<forall>w. steady v w (snd (x_run env (fetch_argv g rem) w))) \<and>
     (\<forall>w. steady v w (snd (x_run env (git_argv g [''rev-parse'', ''--absolute-git-dir'']) w))) \<and>
     (\<forall>w r w'. x_run env (git_argv g [''rev-parse'', ''--abbrev-ref'', ''HEAD'']) w = (r, w') \<longrightarrow>
        steady v w w' \<and>
        (\<forall>b out err. r = Inr (0, out, err) \<longrightarrow> on_branch (v w) = Some b \<longrightarrow> strip out = b))"

text \<open>
  A rebase that succeeds leaves the branch checked out. One that fails did not start and left what is checked out, or
  it stopped in the middle, with a detached head. With nothing on the remote that the branch lacks, a rebase changes
  nothing. An abort that succeeds after a rebase that failed leaves the branch checked out where it was; one that fails
  where a branch is checked out, and so no rebase is under way, changes nothing. Nothing is said of an abort that
  fails in the middle of a rebase.
\<close>

definition law_rebase :: "'w env \<Rightarrow> git_conf \<Rightarrow> string \<Rightarrow> ('w \<Rightarrow> repo) \<Rightarrow> bool" where
  "law_rebase env g rem v \<longleftrightarrow>
     (\<forall>b w k out err w'. x_run env (rebase_argv g rem b) w = (Inr (k, out, err), w') \<longrightarrow>
        published v w w' \<and>
        (k = 0 \<longrightarrow> on_branch (v w') = on_branch (v w)) \<and>
        (k \<noteq> 0 \<longrightarrow> anchored v w w' \<or> on_branch (v w') = None) \<and>
        (remote_has (v w) \<subseteq> set (history (v w)) \<longrightarrow> on_branch (v w) \<noteq> None \<longrightarrow> steady v w w') \<and>
        (k \<noteq> 0 \<longrightarrow> on_branch (v w) \<noteq> None \<longrightarrow>
           (\<forall>out err w2. x_run env (abort_argv g) w' = (Inr (0, out, err), w2) \<longrightarrow> anchored v w w2))) \<and>
     (\<forall>w j out err w'. x_run env (abort_argv g) w = (Inr (j, out, err), w') \<longrightarrow> j \<noteq> 0 \<longrightarrow> on_branch (v w) \<noteq> None \<longrightarrow>
        anchored v w w')"

text \<open>A push that succeeds leaves the pushed branch on the remote.\<close>

definition law_push :: "'w env \<Rightarrow> git_conf \<Rightarrow> string \<Rightarrow> ('w \<Rightarrow> repo) \<Rightarrow> bool" where
  "law_push env g rem v \<longleftrightarrow>
     (\<forall>b w r w'. x_run env (git_argv g (credential_args g @ [''push'', rem, b])) w = (r, w') \<longrightarrow>
        steady v w w' \<and>
        (\<forall>out err. r = Inr (0, out, err) \<longrightarrow> on_branch (v w) = Some b \<longrightarrow> delivered (v w')))"

text \<open>Nothing else touches the index or what is checked out: the worker is the only one that runs git.\<close>

definition law_others :: "'w env \<Rightarrow> ('w \<Rightarrow> repo) \<Rightarrow> bool" where
  "law_others env v \<longleftrightarrow>
     (\<forall>w. steady v w (snd (x_monotonic env w))) \<and> (\<forall>w. steady v w (snd (x_time env w))) \<and>
     (\<forall>w. steady v w (snd (x_utcnow env w))) \<and> (\<forall>p w. steady v w (snd (x_is_dir env p w))) \<and>
     (\<forall>p w. steady v w (snd (x_is_file env p w))) \<and> (\<forall>p w. steady v w (snd (x_exists env p w))) \<and>
     (\<forall>p w. steady v w (snd (x_listdir env p w))) \<and> (\<forall>p w. steady v w (snd (x_walk env p w))) \<and>
     (\<forall>p w. steady v w (snd (x_mtime env p w))) \<and> (\<forall>p w. steady v w (snd (x_read env p w))) \<and>
     (\<forall>p t w. steady v w (snd (x_write env p t w))) \<and> (\<forall>p w. steady v w (snd (x_unlink env p w))) \<and>
     (\<forall>w. steady v w (snd (x_getpid env w))) \<and> (\<forall>u t w. steady v w (snd (x_http env u t w))) \<and>
     (\<forall>n w. steady v w (snd (x_read_body env n w)))"

text \<open>The laws together, for the remote \<open>rem\<close> that the worker pushes to.\<close>

definition git_laws :: "'w env \<Rightarrow> git_conf \<Rightarrow> string \<Rightarrow> ('w \<Rightarrow> repo) \<Rightarrow> bool" where
  "git_laws env g rem v \<longleftrightarrow> law_add env g v \<and> law_diff env g v \<and> law_commit env g v \<and> law_look env g rem v \<and>
     law_rebase env g rem v \<and> law_push env g rem v \<and> law_others env v"

section \<open>Which commands have to end\<close>

text \<open>
  \<open>movers_end\<close>: the commands that move what is checked out, a commit, a rebase and its abort, end by themselves.
  Every other command may at any time run into the timeout and be killed, or not be started at all.
\<close>

definition movers_end :: "'w env \<Rightarrow> git_conf \<Rightarrow> string \<Rightarrow> bool" where
  "movers_end env g rem \<longleftrightarrow>
     (\<forall>m w. \<exists>x w'. x_run env (commit_argv g m) w = (Inr x, w')) \<and>
     (\<forall>b w. \<exists>x w'. x_run env (rebase_argv g rem b) w = (Inr x, w')) \<and>
     (\<forall>w. \<exists>x w'. x_run env (git_argv g [''rebase'', ''--abort'']) w = (Inr x, w'))"

text \<open>
  \<open>aborts_work\<close>: where a failed rebase stopped in the middle of the branch, the abort succeeds. The worker does not
  look at its result.
\<close>

definition aborts_work :: "'w env \<Rightarrow> git_conf \<Rightarrow> string \<Rightarrow> ('w \<Rightarrow> repo) \<Rightarrow> bool" where
  "aborts_work env g rem v \<longleftrightarrow>
     (\<forall>b w k out err w' j out' err' w2. x_run env (rebase_argv g rem b) w = (Inr (k, out, err), w') \<longrightarrow> k \<noteq> 0 \<longrightarrow>
        on_branch (v w) \<noteq> None \<longrightarrow> on_branch (v w') = None \<longrightarrow>
        x_run env (abort_argv g) w' = (Inr (j, out', err'), w2) \<longrightarrow> j = 0)"

text \<open>\<open>syncs_end\<close>: the fetch ends too, so that a push cycle comes to its push.\<close>

definition syncs_end :: "'w env \<Rightarrow> git_conf \<Rightarrow> string \<Rightarrow> bool" where
  "syncs_end env g rem \<longleftrightarrow> movers_end env g rem \<and> (\<forall>w. \<exists>x w'. x_run env (fetch_argv g rem) w = (Inr x, w'))"

lemma syncs_movers: "syncs_end env g rem \<Longrightarrow> movers_end env g rem"
  by (simp add: syncs_end_def)

lemma answers_movers: "git_answers env \<Longrightarrow> movers_end env g rem"
  unfolding git_answers_def movers_end_def by (metis surj_pair)

lemma answers_syncs: "git_answers env \<Longrightarrow> syncs_end env g rem"
  unfolding syncs_end_def using answers_movers git_answers_def by (metis surj_pair)

lemma run_git_returns:
  assumes "\<And>w. \<exists>x w'. x_run env (git_argv g args) w = (Inr x, w')"
  shows "never_raises (run_git env g args)"
proof (rule never_raisesI)
  fix s :: "('a, 'b) io_scheme"
  obtain x w' where "x_run env (git_argv g args) (world s) = (Inr x, w')" using assms by blast
  then show "\<exists>x s'. run_git env g args s = (Inr x, s')" by (cases x) (simp add: run_git_eq)
qed

lemma movers_return:
  assumes "movers_end env g rem"
  shows "never_raises (run_git env g (identity_args g @ [''commit'', ''-m'', m]))"
    and "never_raises (rebase_theirs env g rem b)" and "never_raises (rebase_abort env g)"
  unfolding rebase_theirs_def rebase_abort_def
  by (rule run_git_returns, use assms in \<open>unfold movers_end_def, blast\<close>)+

section \<open>The laws, one operation at a time\<close>

lemma steady_calls:
  assumes "law_others env v"
  shows "steady v w (snd (x_monotonic env w))" "steady v w (snd (x_time env w))"
    "steady v w (snd (x_utcnow env w))" "steady v w (snd (x_is_dir env p w))"
    "steady v w (snd (x_is_file env p w))" "steady v w (snd (x_exists env p w))"
    "steady v w (snd (x_listdir env p w))" "steady v w (snd (x_walk env p w))"
    "steady v w (snd (x_mtime env p w))" "steady v w (snd (x_read env p w))"
    "steady v w (snd (x_write env p t w))" "steady v w (snd (x_unlink env p w))"
    "steady v w (snd (x_getpid env w))" "steady v w (snd (x_http env u l w))"
    "steady v w (snd (x_read_body env n w))"
  using assms by (simp_all add: law_others_def)

lemma laws_others: "git_laws env g rem v \<Longrightarrow> law_others env v"
  by (simp add: git_laws_def)

text \<open>One command, seen from its result.\<close>

lemma run_git_world:
  assumes "run_git env g args s = (Inr x, s')"
  shows "\<exists>out err. x_run env (git_argv g args) (world s) = (Inr (rc x, out, err), world s')"
  using assms by (auto simp: run_git_eq split: prod.splits sum.splits)

lemma run_git_world_snd: "world (snd (run_git env g args s)) = snd (x_run env (git_argv g args) (world s))"
  by (simp add: run_git_eq split: prod.split sum.split)

lemma add_all_stages:
  assumes "git_laws env g rem v" and "add_all env g s = (Inr x, s')"
  shows "anchored v (world s) (world s')" and "ok x \<Longrightarrow> stages v (world s) (world s') p"
  using run_git_world [OF assms(2) [unfolded add_all_def]] assms(1)
  unfolding git_laws_def law_add_def ok_def by fastforce+

lemma add_stages:
  assumes "git_laws env g rem v" and "add env g ps s = (Inr x, s')"
  shows "anchored v (world s) (world s')"
    and "ok x \<Longrightarrow> p \<in> set ps \<Longrightarrow> plain_path p \<Longrightarrow> stages v (world s) (world s') p"
  using run_git_world [OF assms(2) [unfolded add_def]] assms(1)
  unfolding git_laws_def law_add_def ok_def by fastforce+

lemma add_anchored:
  assumes "git_laws env g rem v"
  shows "moves (anchored v) (add_all env g)" and "moves (anchored v) (add env g ps)"
  unfolding add_all_def add_def
  by (rule anchored.moves_run_git, use assms in \<open>unfold git_laws_def law_add_def, metis prod.collapse\<close>)+

lemma has_staged_steady:
  assumes "git_laws env g rem v"
  shows "moves (steady v) (has_staged env g)"
proof -
  have "moves (steady v) (run_git env g [''diff'', ''--cached'', ''--quiet''])"
    by (rule steady.moves_run_git) (use assms in \<open>unfold git_laws_def law_diff_def, metis prod.collapse\<close>)
  then show ?thesis unfolding has_staged_def by (intro steady.moves_seq steady.moves_ret)
qed

lemma nothing_staged:
  assumes "git_laws env g rem v" and "has_staged env g s = (Inr False, s')"
  shows "head_files (v (world s')) = index (v (world s))"
proof -
  obtain x where x: "run_git env g [''diff'', ''--cached'', ''--quiet''] s = (Inr x, s')" "rc x = 0"
    using assms(2) by (auto simp: has_staged_def seq_eq_Inr ok_def)
  obtain out err where "x_run env (git_argv g [''diff'', ''--cached'', ''--quiet'']) (world s) = (Inr (0, out, err), world s')"
    using run_git_world [OF x(1)] x(2) by auto
  then have "steady v (world s) (world s')" "index (v (world s')) = head_files (v (world s'))"
    using assms(1) unfolding git_laws_def law_diff_def by blast+
  then show ?thesis by (simp add: steady_def)
qed

end
