(* ===== verification/Backup.thy ===== *)
theory Backup
  imports GitRepo
begin

text \<open>
  What becomes of the notes. Under the laws of git: a cycle that leaves the worker healthy has put what it staged
  into the checked out revision, the mark of unpushed commits is clear only when everything is on the remote,
  and a quiet window whose push works brings it there.
\<close>

section \<open>What leaves the repository alone\<close>

lemma find_locks_steady:
  assumes "law_others env v"
  shows "moves (steady v) (find_locks env d)"
proof -
  note calls = steady_calls [OF assms] steady.moves_intros
  have stat: "moves (steady v) (stat_locks env d now ps)" for now ps
    by (induction ps) (auto intro!: calls simp: except_os_def split: exn.splits option.split)
  show ?thesis
    unfolding find_locks_def glob_locks_def rglob_locks_def
    by (auto intro!: calls stat simp: except_os_def split: exn.splits)
qed

lemma describe_present_steady: "law_others env v \<Longrightarrow> moves (steady v) (describe_present env d)"
  unfolding describe_present_def by (intro steady.moves_intros find_locks_steady)

lemma git_dir_steady:
  assumes "git_laws env g rem v"
  shows "moves (steady v) (git_dir env g)"
proof -
  have "moves (steady v) (run_git env g [''rev-parse'', ''--absolute-git-dir''])"
    by (rule steady.moves_run_git) (use assms in \<open>simp add: git_laws_def law_look_def\<close>)
  then show ?thesis
    unfolding git_dir_def Let_def
    by (auto intro!: steady.moves_intros steady_calls laws_others [OF assms] split: option.split)
qed

lemma record_failure_steady:
  assumes "git_laws env (git c) rem v"
  shows "moves (steady v) (record_failure env c what code)"
  unfolding record_failure_def lock_note_def Let_def
  by (auto intro!: steady.moves_intros git_dir_steady [OF assms] describe_present_steady laws_others [OF assms])

lemma record_clean_world: "record_clean s = (r, s') \<Longrightarrow> world s' = world s"
  by (auto simp: record_clean_def seq_def gets_def andthen_def emit_def modify_def ret_def split: option.splits)

lemma stamp_paths_steady:
  assumes "law_others env v"
  shows "moves (steady v) (stamp_paths env y ps)"
proof -
  note calls = steady_calls [OF assms] steady.moves_intros
  have "moves (steady v) (restamp env y p original body data)" for p original body data
    unfolding restamp_def now_utc_def write_text_def Let_def by (auto intro!: calls)
  then have "moves (steady v) (stamp env y p)" for p
    unfolding stamp_def stamp_body_def Let_def by (auto intro!: calls split: prod.split)
  then show ?thesis
    unfolding stamp_paths_def stamp_one_def by (auto intro!: calls)
qed

lemma stamping_part_steady: "law_others env v \<Longrightarrow> moves (steady v) (stamping_part env y cfg c ev)"
  unfolding stamping_part_def
  by (auto intro!: steady.moves_intros stamp_paths_steady simp: except_any_def)

lemma ping_steady:
  assumes "law_others env v"
  shows "moves (steady v) (ping env url)"
  unfolding ping_def open_url_eq Let_def
  by (auto intro!: steady.moves_intros steady_calls [OF assms])

lemma pushed_steady: "law_others env v \<Longrightarrow> moves (steady v) (pushed env c)"
  unfolding pushed_def by (auto intro!: steady.moves_intros steady_calls ping_steady)

section \<open>A healthy cycle\<close>

text \<open>A timed step of a cycle that left the worker healthy has returned, and the cycle went on.\<close>

lemma timed_healthy:
  assumes "timed (record_failure env c what Timeout) m k s = (Inr (), s')" and "\<not> degraded s'"
  obtains x s1 where "m s = (Inr x, s1)" "k x s1 = (Inr (), s')"
  using assms record_failure_degrades unfolding timed_eq by blast

lemma stage_and_commit_healthy:
  assumes "stage_and_commit env c label stage message s = (Inr (), s')" and "\<not> degraded s'"
  obtains (clean) x s1 s2 where "stage s = (Inr x, s1)" "ok x" "has_staged env (git c) s1 = (Inr False, s2)"
      "record_clean s2 = (Inr (), s')"
  | (committed) x s1 s2 y s3 where "stage s = (Inr x, s1)" "ok x" "has_staged env (git c) s1 = (Inr True, s2)"
      "commit env (git c) message s2 = (Inr y, s3)" "ok y" "record_clean (s3\<lparr>unpushed := True\<rparr>) = (Inr (), s')"
proof -
  obtain x s1 where 1: "stage s = (Inr x, s1)" and r1: "(if \<not> ok x
        then timed (record_failure env c (label @ '' stage'') Timeout)
          (record_failure env c (label @ '' stage'') (Rc (rc x))) ret
        else index_part env c label message) s1 = (Inr (), s')"
    using assms(1) unfolding stage_and_commit_parts by (rule timed_healthy [OF _ assms(2)])
  from r1 have x: "ok x" using assms(2) by (auto dest: timed_failure_degrades split: if_splits)
  with r1 have "index_part env c label message s1 = (Inr (), s')" by simp
  then obtain b s2 where 2: "has_staged env (git c) s1 = (Inr b, s2)"
    and r2: "(if \<not> b then record_clean else commit_part env c label message) s2 = (Inr (), s')"
    unfolding index_part_def by (rule timed_healthy [OF _ assms(2)])
  show thesis
  proof (cases b)
    case False
    with 1 x 2 r2 show thesis by (intro clean) simp_all
  next
    case True
    with r2 have "commit_part env c label message s2 = (Inr (), s')" by simp
    then obtain y s3 where 3: "commit env (git c) message s2 = (Inr y, s3)" and r3: "(if \<not> ok y
        then timed (record_failure env c (label @ '' commit'') Timeout)
          (record_failure env c (label @ '' commit'') (Rc (rc y))) ret
        else andthen (modify (\<lambda>s. s\<lparr>unpushed := True\<rparr>)) record_clean) s3 = (Inr (), s')"
      unfolding commit_part_def Let_def by (rule timed_healthy [OF _ assms(2)])
    from r3 have "ok y" using assms(2) by (auto dest: timed_failure_degrades split: if_splits)
    with 1 x 2 3 r3 True show thesis by (intro committed [of x s1 s2 y s3]) (simp_all add: andthen_def seq_def modify_def)
  qed
qed

text \<open>What a commit does: the index is then what is checked out, or nothing has changed.\<close>

lemma commit_world:
  assumes "git_laws env g rem v" and "commit env g m s = (Inr x, s')"
  shows "on_branch (v (world s')) = on_branch (v (world s))" and "published v (world s) (world s')"
    and "ok x \<Longrightarrow> head_files (v (world s')) = index (v (world s))"
    and "\<not> ok x \<Longrightarrow> anchored v (world s) (world s')"
proof -
  obtain b s1 where h: "has_staged env g s = (Inr b, s1)"
    and rest: "(if \<not> b then ret \<lparr>rc = 0, stdout = '''', stderr = ''nothing staged''\<rparr>
       else run_git env g (identity_args g @ [''commit'', ''-m'', m])) s1 = (Inr x, s')"
    using assms(2) by (auto simp: commit_def seq_eq_Inr)
  have st: "steady v (world s) (world s1)" by (rule movesD [OF has_staged_steady [OF assms(1)] h])
  have "on_branch (v (world s')) = on_branch (v (world s)) \<and> published v (world s) (world s') \<and>
    (ok x \<longrightarrow> head_files (v (world s')) = index (v (world s))) \<and> (\<not> ok x \<longrightarrow> anchored v (world s) (world s'))"
  proof (cases b)
    case False
    with rest have "s' = s1" "ok x" by (auto simp: ok_def)
    with st nothing_staged [OF assms(1), of s s1] h False show ?thesis by (auto simp: steady_def anchored_def)
  next
    case True
    with rest obtain out err where
      "x_run env (commit_argv g m) (world s1) = (Inr (rc x, out, err), world s')"
      using run_git_world [of env g "identity_args g @ [''commit'', ''-m'', m]" s1 x s'] by auto
    then have "index (v (world s')) = index (v (world s1)) \<and> on_branch (v (world s')) = on_branch (v (world s1)) \<and>
        published v (world s1) (world s') \<and>
        (if rc x = 0 then (\<exists>t. tip (v (world s')) = Some (Revision (index (v (world s1))) t (tip (v (world s1)))))
         else tip (v (world s')) = tip (v (world s1)))"
      using assms(1) unfolding git_laws_def law_commit_def by blast
    with st show ?thesis
      by (auto simp: ok_def steady_def anchored_def published_def head_files_def split: if_splits)
  qed
  then show "on_branch (v (world s')) = on_branch (v (world s))" and "published v (world s) (world s')"
    and "ok x \<Longrightarrow> head_files (v (world s')) = index (v (world s))"
    and "\<not> ok x \<Longrightarrow> anchored v (world s) (world s')"
    by blast+
qed

text \<open>A commit that raises never came to move anything: it was the question before it that failed.\<close>

lemma commit_raised:
  assumes "git_laws env g rem v" and "movers_end env g rem" and "commit env g m s = (Inl e, s')"
  shows "anchored v (world s) (world s')"
proof -
  obtain h s1 where h: "has_staged env g s = (h, s1)" by (cases "has_staged env g s")
  have "s' = s1"
  proof (cases h)
    case (Inl e')
    with h assms(3) show ?thesis by (simp add: commit_def seq_Inl)
  next
    case (Inr b)
    obtain x s2 where "run_git env g (identity_args g @ [''commit'', ''-m'', m]) s1 = (Inr x, s2)"
      using movers_return(1) [OF assms(2)] by (rule never_raisesE)
    with h Inr assms(3) show ?thesis by (simp add: commit_def seq_Inr split: if_splits)
  qed
  with movesD [OF has_staged_steady [OF assms(1)] h] show ?thesis by (simp add: steady_anchored)
qed

text \<open>So what a healthy cycle has staged is what is checked out when it ends.\<close>

lemma healthy_cycle_commits:
  assumes "git_laws env (git c) rem v" and "stage_and_commit env c label stage message s = (Inr (), s')"
    and "\<not> degraded s'"
  obtains x s1 where "stage s = (Inr x, s1)" "ok x" "head_files (v (world s')) = index (v (world s1))"
  using assms(2,3)
proof (cases rule: stage_and_commit_healthy)
  case (clean x s1 s2)
  with nothing_staged [OF assms(1) clean(3)] record_clean_world [OF clean(4)] show thesis
    by (intro that) simp_all
next
  case (committed x s1 s2 y s3)
  have "index (v (world s2)) = index (v (world s1))"
    using movesD [OF has_staged_steady [OF assms(1)] committed(3)] by (simp add: steady_def)
  with committed commit_world(3) [OF assms(1) committed(4,5)] record_clean_world [OF committed(6)] show thesis
    by (intro that) simp_all
qed


section \<open>The push\<close>

text \<open>Rebasing, with the abort of one that failed, leaves the branch checked out.\<close>

lemma failed_rebase_aborted:
  assumes "git_laws env g rem v" and "aborts_work env g rem v" and "on_branch (v w) \<noteq> None"
    and "x_run env (rebase_argv g rem b) w = (Inr (k, out, err), w1)" and "k \<noteq> 0"
    and "x_run env (abort_argv g) w1 = (Inr (j, out', err'), w2)"
  shows "anchored v w w2"
proof -
  have law: "law_rebase env g rem v" using assms(1) by (simp add: git_laws_def)
  show ?thesis
  proof (cases "j = 0")
    case True
    with law assms(3-6) show ?thesis unfolding law_rebase_def by metis
  next
    case False
    with assms(2-6) have on: "on_branch (v w1) \<noteq> None" unfolding aborts_work_def by blast
    with law assms(4,5) have "anchored v w w1" unfolding law_rebase_def by metis
    moreover have "anchored v w1 w2" using law assms(6) on False unfolding law_rebase_def by metis
    ultimately show ?thesis by (rule anchored.trans)
  qed
qed

lemma rebase_part_world:
  assumes "git_laws env (git c) (remote c) v" and "aborts_work env (git c) (remote c) v"
    and "on_branch (v (world s)) \<noteq> None" and "rebase_part env c b s = (Inr (), s')"
  shows "on_branch (v (world s')) = on_branch (v (world s)) \<and> published v (world s) (world s') \<and>
    (remote_has (v (world s)) \<subseteq> set (history (v (world s))) \<longrightarrow> anchored v (world s) (world s'))"
proof -
  obtain x s1 where x: "rebase_theirs env (git c) (remote c) b s = (Inr x, s1)"
    and rest: "(if ok x then ret ()
       else andthen (seq (rebase_abort env (git c)) (\<lambda>_. ret ())) (log Warn (MRebaseFailed (remote c) b))) s1 = (Inr (), s')"
    using assms(4) by (auto simp: rebase_part_def seq_eq_Inr)
  obtain out err where r: "x_run env (rebase_argv (git c) (remote c) b) (world s) = (Inr (rc x, out, err), world s1)"
    using run_git_world [OF x [unfolded rebase_theirs_def]] by blast
  show ?thesis
  proof (cases "ok x")
    case True
    from assms(1) r have "published v (world s) (world s1)" "rc x = 0 \<Longrightarrow> on_branch (v (world s1)) = on_branch (v (world s))"
      "remote_has (v (world s)) \<subseteq> set (history (v (world s))) \<Longrightarrow> on_branch (v (world s)) \<noteq> None \<Longrightarrow>
         steady v (world s) (world s1)"
      unfolding git_laws_def law_rebase_def by blast+
    with rest True assms(3) show ?thesis by (auto simp: ok_def dest: steady_anchored)
  next
    case False
    with rest obtain y s2 where y: "rebase_abort env (git c) s1 = (Inr y, s2)" and w: "world s' = world s2"
      by (auto simp: andthen_eq_Inr seq_eq_Inr emit_def)
    obtain out' err' where "x_run env (abort_argv (git c)) (world s1) = (Inr (rc y, out', err'), world s2)"
      using run_git_world [OF y [unfolded rebase_abort_def]] by blast
    from failed_rebase_aborted [OF assms(1-3) r _ this] False w have "anchored v (world s) (world s')"
      by (simp add: ok_def)
    then show ?thesis by (simp add: anchored_def)
  qed
qed

lemma fetch_steady:
  assumes "git_laws env g rem v"
  shows "moves (steady v) (fetch env g rem)"
  unfolding fetch_def
  by (rule steady.moves_run_git) (use assms in \<open>simp add: git_laws_def law_look_def\<close>)

lemma sync_remote_world:
  assumes "git_laws env (git c) (remote c) v" and "aborts_work env (git c) (remote c) v"
    and "on_branch (v (world s)) \<noteq> None" and "sync_remote env c b s = (Inr (), s')"
  shows "on_branch (v (world s')) = on_branch (v (world s)) \<and> published v (world s) (world s') \<and>
    (remote_has (v (snd (x_run env (fetch_argv (git c) (remote c)) (world s)))) \<subseteq> set (history (v (world s))) \<longrightarrow>
     anchored v (world s) (world s'))"
proof -
  obtain x s1 where x: "fetch env (git c) (remote c) s = (Inr x, s1)"
    and rest: "(if ok x then rebase_part env c b else ret ()) s1 = (Inr (), s')"
    using assms(4) by (auto simp: sync_remote_def seq_eq_Inr)
  have st: "steady v (world s) (world s1)" by (rule movesD [OF fetch_steady [OF assms(1)] x])
  have w: "snd (x_run env (fetch_argv (git c) (remote c)) (world s)) = world s1"
    using run_git_world_snd [of env "git c" "credential_args (git c) @ [''fetch'', remote c]" s] x
    by (simp add: fetch_def)
  have h: "history (v (world s1)) = history (v (world s))" "on_branch (v (world s1)) = on_branch (v (world s))"
    using st by (simp_all add: steady_def anchored_def history_def)
  have "on_branch (v (world s')) = on_branch (v (world s1)) \<and> published v (world s1) (world s') \<and>
    (remote_has (v (world s1)) \<subseteq> set (history (v (world s1))) \<longrightarrow> anchored v (world s1) (world s'))"
    using rest rebase_part_world [OF assms(1,2), of s1 b s'] assms(3) h(2) anchored.refl by (cases "ok x") (auto simp: published_def)
  with st show ?thesis
    unfolding w h by (auto simp: steady_def anchored_def published_def)
qed

text \<open>Also a fetch that is killed leaves the branch.\<close>

lemma rebase_part_returns: "movers_end env (git c) (remote c) \<Longrightarrow> never_raises (rebase_part env c b)"
  unfolding rebase_part_def
  by (intro never_raises_seq never_raises_if never_raises_andthen movers_return never_raises_ret never_raises_emit)

lemma syncs_return:
  assumes "syncs_end env (git c) (remote c)"
  shows "never_raises (sync_remote env c b)"
proof -
  have "never_raises (fetch env (git c) (remote c))"
    unfolding fetch_def by (rule run_git_returns) (use assms in \<open>simp add: syncs_end_def\<close>)
  then show ?thesis
    unfolding sync_remote_def
    by (intro never_raises_seq never_raises_if rebase_part_returns syncs_movers assms never_raises_ret)
qed

lemma sync_remote_branch:
  assumes "git_laws env (git c) (remote c) v" and "movers_end env (git c) (remote c)"
    and "aborts_work env (git c) (remote c) v" and "on_branch (v (world s)) \<noteq> None" and "sync_remote env c b s = (r, s')"
  shows "on_branch (v (world s')) = on_branch (v (world s))"
proof (cases r)
  case (Inr u)
  with assms(5) have "sync_remote env c b s = (Inr (), s')" by simp
  from sync_remote_world [OF assms(1,3,4) this] show ?thesis by blast
next
  case (Inl e)
  obtain q s1 where q: "fetch env (git c) (remote c) s = (q, s1)" by (cases "fetch env (git c) (remote c) s")
  have "s' = s1"
  proof (cases q)
    case (Inl e')
    with q assms(5) show ?thesis by (simp add: sync_remote_def seq_Inl)
  next
    case (Inr x)
    obtain u s2 where "(if ok x then rebase_part env c b else ret ()) s1 = (Inr u, s2)"
      using never_raises_if [OF rebase_part_returns [OF assms(2)] never_raises_ret] by (rule never_raisesE)
    with q Inr assms(5) \<open>r = Inl e\<close> show ?thesis by (simp add: sync_remote_def seq_Inr)
  qed
  with movesD [OF fetch_steady [OF assms(1)] q] show ?thesis by (simp add: steady_def anchored_def)
qed

text \<open>The branch that is pushed is the one that is checked out.\<close>

definition pushes_from :: "worker_conf \<Rightarrow> string \<Rightarrow> bool" where
  "pushes_from c b \<longleftrightarrow> branch c = [] \<or> branch c = b"

lemma resolve_branch_world:
  assumes "git_laws env (git c) (remote c) v" and "pushes_from c b" and "on_branch (v (world s)) = Some b"
    and "resolve_branch env c s = (Inr br, s')"
  shows "steady v (world s) (world s') \<and> (br = None \<or> br = Some b)"
proof (cases "branch c = []")
  case False
  with assms(2,4) show ?thesis by (auto simp: resolve_branch_def pushes_from_def steady.refl)
next
  case True
  with assms(4) obtain x where x: "run_git env (git c) [''rev-parse'', ''--abbrev-ref'', ''HEAD''] s = (Inr x, s')"
    and br: "br = (if \<not> ok x then None else if strip (stdout x) \<noteq> [] then Some (strip (stdout x)) else None)"
    by (auto simp: resolve_branch_def current_branch_def seq_eq_Inr Let_def split: if_splits)
  obtain err where "x_run env (git_argv (git c) [''rev-parse'', ''--abbrev-ref'', ''HEAD'']) (world s)
      = (Inr (rc x, stdout x, err), world s')"
    using x by (auto simp: run_git_eq split: prod.splits sum.splits)
  then have "steady v (world s) (world s')" "rc x = 0 \<Longrightarrow> strip (stdout x) = b"
    using assms(1,3) unfolding git_laws_def law_look_def by blast+
  with br show ?thesis by (auto simp: ok_def)
qed


lemma resolve_branch_steady:
  assumes "git_laws env (git c) (remote c) v"
  shows "moves (steady v) (resolve_branch env c)"
proof -
  have "moves (steady v) (run_git env (git c) [''rev-parse'', ''--abbrev-ref'', ''HEAD''])"
    by (rule steady.moves_run_git) (use assms in \<open>unfold git_laws_def law_look_def, metis prod.collapse\<close>)
  then show ?thesis unfolding resolve_branch_def current_branch_def Let_def by (intro steady.moves_intros)
qed

text \<open>The push itself: the branch stays, and a mark that is cleared says that everything is on the remote.\<close>

lemma push_command_steady:
  assumes "git_laws env g rem v"
  shows "moves (steady v) (push env g rem b)"
  unfolding push_def
  by (rule steady.moves_run_git) (use assms in \<open>unfold git_laws_def law_push_def, metis prod.collapse\<close>)

lemma push_part_steady: "git_laws env (git c) (remote c) v \<Longrightarrow> moves (steady v) (push_part env c b)"
  unfolding push_part_def
  by (intro steady.moves_intros push_command_steady pushed_steady laws_others)

lemma push_part_world:
  assumes laws: "git_laws env (git c) (remote c) v" and on: "on_branch (v (world s)) = Some b"
    and run: "push_part env c b s = (r, s')" and mark: "unpushed s"
  shows "\<not> unpushed s' \<Longrightarrow> delivered (v (world s'))"
proof -
  assume clear: "\<not> unpushed s'"
  obtain p s1 where p: "push env (git c) (remote c) b s = (p, s1)" by (cases "push env (git c) (remote c) b s")
  have "unpushed s1" using push_cmd_end [OF p] mark by (simp add: push_end_def)
  with clear obtain x where x: "p = Inr x" "ok x" "pushed env c s1 = (r, s')"
    using run p by (cases p) (auto simp: push_part_def seq_Inr seq_Inl emit_def split: if_splits)
  obtain out err where "x_run env (git_argv (git c) (credential_args (git c) @ [''push'', remote c, b])) (world s)
      = (Inr (0, out, err), world s1)"
    using run_git_world [OF p [unfolded push_def x(1)]] x(2) by (auto simp: ok_def)
  then have "delivered (v (world s1))" using laws on unfolding git_laws_def law_push_def by blast
  then show "delivered (v (world s'))"
    by (rule anchored_delivered [OF steady_anchored [OF movesD [OF pushed_steady [OF laws_others [OF laws]] x(3)]]])
qed

text \<open>
  One push cycle: the branch stays checked out, and when the mark of unpushed commits is clear at the end, everything
  is on the remote.
\<close>

lemma push_once_world:
  assumes laws: "git_laws env (git c) (remote c) v" and ends: "movers_end env (git c) (remote c)"
    and abort: "aborts_work env (git c) (remote c) v" and b: "pushes_from c b"
    and on: "on_branch (v (world s)) = Some b" and run: "push_once env c s = (r, s')" and mark: "unpushed s"
  shows "on_branch (v (world s')) = Some b \<and> (\<not> unpushed s' \<longrightarrow> delivered (v (world s')))"
proof -
  obtain q s1 where q: "resolve_branch env c s = (q, s1)" by (cases "resolve_branch env c s")
  have 1: "on_branch (v (world s1)) = Some b" "unpushed s1"
    using movesD [OF resolve_branch_steady [OF laws] q] on resolve_branch_end [OF q] mark
    by (auto simp: steady_def anchored_def push_end_def)
  consider (branch) "q = Inr (Some b)" | (skipped) "world s' = world s1" "unpushed s' = unpushed s1"
    using q run resolve_branch_world [OF laws b on, of _ s1]
    by (cases q) (auto simp: push_once_def seq_Inr seq_Inl emit_def split: option.splits)
  then show ?thesis
  proof cases
    case branch
    obtain f s2 where f: "sync_remote env c b s1 = (f, s2)" by (cases "sync_remote env c b s1")
    have 2: "on_branch (v (world s2)) = Some b" "unpushed s2"
      using sync_remote_branch [OF laws ends abort _ f] sync_remote_end [OF f] 1
      by (auto simp: push_end_def)
    show ?thesis
    proof (cases f)
      case (Inl e)
      with run q branch f have "s' = s2" by (simp add: push_once_parts seq_Inr seq_Inl andthen_def)
      with 2 show ?thesis by simp
    next
      case (Inr u)
      with run q branch f have p: "push_part env c b s2 = (r, s')" by (simp add: push_once_parts seq_Inr andthen_def)
      have "on_branch (v (world s')) = Some b"
        using movesD [OF push_part_steady [OF laws] p] 2(1) by (simp add: steady_def anchored_def)
      with push_part_world [OF laws 2(1) p 2(2)] show ?thesis by blast
    qed
  next
    case skipped
    with 1 show ?thesis by simp
  qed
qed

text \<open>
  \<open>mark_true\<close>: the branch is checked out, and a clear mark means that everything is on the remote.
\<close>

definition mark_true :: "('w \<Rightarrow> repo) \<Rightarrow> string \<Rightarrow> ('w, 'z) worker_st_scheme \<Rightarrow> bool" where
  "mark_true v b s \<longleftrightarrow> on_branch (v (world s)) = Some b \<and> (\<not> unpushed s \<longrightarrow> delivered (v (world s)))"

lemma mark_true_anchored:
  "mark_true v b s \<Longrightarrow> anchored v (world s) (world s') \<Longrightarrow> unpushed s' = unpushed s \<Longrightarrow> mark_true v b s'"
  by (simp add: mark_true_def anchored_delivered anchored_branch)

lemma maybe_push_marks:
  assumes "git_laws env (git c) (remote c) v" and "movers_end env (git c) (remote c)" and "aborts_work env (git c) (remote c) v"
    and "pushes_from c b" and "mark_true v b s" and "maybe_push env c s = (r, s')"
  shows "mark_true v b s'"
proof (cases "unpushed s \<and> remote c \<noteq> []")
  case False
  with assms(5,6) show ?thesis by (auto simp: maybe_push_def seq_def gets_def)
next
  case True
  obtain q s1 where q: "push_once env c s = (q, s1)" by (cases "push_once env c s")
  have "world s' = world s1" "unpushed s' = unpushed s1"
    using assms(6) True q
    by (auto simp: maybe_push_def seq_def gets_def attempt_def emit_def ret_def split: sum.splits exn.splits)
  with push_once_world [OF assms(1-4) _ q] True assms(5) show ?thesis by (simp add: mark_true_def)
qed


section \<open>The mark of unpushed commits is true\<close>

context world_order begin

lemma moves_timed: "moves R h \<Longrightarrow> moves R m \<Longrightarrow> (\<And>x. moves R (k x)) \<Longrightarrow> moves R (timed h m k)"
  unfolding timed_def
  by (intro moves_intros) (auto split: option.split if_splits intro!: moves_intros simp: except_timeout_def)

end

text \<open>What neither moves the branch nor sets or clears the mark.\<close>

lemma mark_true_kept:
  assumes "moves (anchored v) m" and "frames unpushed m" and "mark_true v b s" and "m s = (r, s')"
  shows "mark_true v b s'"
  using mark_true_anchored [OF assms(3) movesD [OF assms(1,4)]] framesD [OF assms(2,4)] by blast

lemma record_failure_unmarked: "frames unpushed (record_failure env c what code)"
  by (rule framesI) (metis prod.collapse record_failure_outcome)

lemma timed_unmarked: "frames f h \<Longrightarrow> frames f m \<Longrightarrow> (\<And>x. frames f (k x)) \<Longrightarrow> frames f (timed h m k)"
  unfolding timed_def
  by (intro frame_intros) (auto split: option.split if_splits intro!: frame_intros simp: except_timeout_def)

lemma timed_failure_kept:
  assumes "git_laws env (git c) rem v" and "mark_true v b s"
    and "timed (record_failure env c l Timeout) (record_failure env c what code) ret s = (r, s')"
  shows "mark_true v b s'"
proof -
  have "moves (anchored v) (record_failure env c what code)" for what code
    by (rule moves_mono [OF record_failure_steady [OF assms(1)] steady_anchored])
  then have "moves (anchored v) (timed (record_failure env c l Timeout) (record_failure env c what code) ret)"
    by (intro anchored.moves_timed anchored.moves_ret)
  from movesD [OF this assms(3)] have "anchored v (world s) (world s')" .
  moreover have "frames unpushed (timed (record_failure env c l Timeout) (record_failure env c what code) ret)"
    by (intro timed_unmarked record_failure_unmarked frames_ret)
  from framesD [OF this assms(3)] have "unpushed s' = unpushed s" .
  ultimately show ?thesis by (rule mark_true_anchored [OF assms(2)])
qed

lemma timed_raised_kept:
  assumes "git_laws env (git c) rem v" and "mark_true v b s1" and "m s = (Inl e, s1)"
    and "timed (record_failure env c what Timeout) m k s = (r, s')"
  shows "mark_true v b s'"
proof -
  have "moves (anchored v) (record_failure env c what Timeout)"
    by (rule moves_mono [OF record_failure_steady [OF assms(1)] steady_anchored])
  from mark_true_kept [OF this record_failure_unmarked assms(2)] assms(2-4) show ?thesis
    unfolding timed_eq by auto
qed

lemma record_clean_marks:
  assumes "mark_true v b s" and "record_clean s = (r, s')"
  shows "mark_true v b s'"
  using assms record_clean_outcome [OF assms(2)] record_clean_world [OF assms(2)] by (simp add: mark_true_def)

lemma commit_part_marks:
  assumes laws: "git_laws env (git c) rem v" and ends: "movers_end env (git c) rem" and "mark_true v b s"
    and "commit_part env c label message s = (r, s')"
  shows "mark_true v b s'"
proof -
  note run = assms(4) [unfolded commit_part_def Let_def]
  obtain q s1 where q: "commit env (git c) message s = (q, s1)" by (cases "commit env (git c) message s")
  have m: "unpushed s1 = unpushed s"
    using commit_outcome [OF q] worker_fields(1) by blast
  consider (raised) e where "q = Inl e" | (failed) y where "q = Inr y" "\<not> ok y" | (made) y where "q = Inr y" "ok y"
    by (cases q) auto
  then show ?thesis
  proof cases
    case (raised e)
    with q have c: "commit env (git c) message s = (Inl e, s1)" by simp
    have "mark_true v b s1" by (rule mark_true_anchored [OF assms(3) commit_raised [OF laws ends c] m])
    then show ?thesis by (rule timed_raised_kept [where m = "commit env (git c) message", OF laws _ c run])
  next
    case (failed y)
    with q have c: "commit env (git c) message s = (Inr y, s1)" by simp
    have "mark_true v b s1" by (rule mark_true_anchored [OF assms(3) commit_world(4) [OF laws c failed(2)] m])
    moreover from run have "timed (record_failure env c (label @ '' commit'') Timeout)
        (record_failure env c (label @ '' commit'') (Rc (rc y))) ret s1 = (r, s')"
      unfolding timed_Inr [where m = "commit env (git c) message", OF c] using failed(2) by simp
    ultimately show ?thesis by (rule timed_failure_kept [OF laws])
  next
    case (made y)
    with q have c: "commit env (git c) message s = (Inr y, s1)" by simp
    have "mark_true v b (s1\<lparr>unpushed := True\<rparr>)"
      using commit_world(1) [OF laws c] assms(3) by (simp add: mark_true_def)
    moreover from run have "record_clean (s1\<lparr>unpushed := True\<rparr>) = (r, s')"
      unfolding timed_Inr [where m = "commit env (git c) message", OF c] using made(2)
      by (simp add: andthen_def seq_def modify_def)
    ultimately show ?thesis by (rule record_clean_marks)
  qed
qed

lemma index_part_marks:
  assumes laws: "git_laws env (git c) rem v" and ends: "movers_end env (git c) rem" and "mark_true v b s"
    and "index_part env c label message s = (r, s')"
  shows "mark_true v b s'"
proof -
  note run = assms(4) [unfolded index_part_def]
  obtain q s1 where q: "has_staged env (git c) s = (q, s1)" by (cases "has_staged env (git c) s")
  have "unpushed s1 = unpushed s" using has_staged_outcome [OF q] worker_fields(1) by blast
  then have 1: "mark_true v b s1"
    by (rule mark_true_anchored [OF assms(3) steady_anchored [OF movesD [OF has_staged_steady [OF laws] q]]])
  show ?thesis
  proof (cases q)
    case (Inl e)
    with q have "has_staged env (git c) s = (Inl e, s1)" by simp
    from timed_raised_kept [where m = "has_staged env (git c)", OF laws 1 this run] show ?thesis .
  next
    case (Inr h)
    with q have h: "has_staged env (git c) s = (Inr h, s1)" by simp
    from run have "(if \<not> h then record_clean else commit_part env c label message) s1 = (r, s')"
      unfolding timed_Inr [where m = "has_staged env (git c)", OF h] .
    then show ?thesis
      using record_clean_marks [OF 1] commit_part_marks [OF laws ends 1] by (cases h) simp_all
  qed
qed

lemma stage_and_commit_marks:
  assumes laws: "git_laws env (git c) rem v" and ends: "movers_end env (git c) rem" and "mark_true v b s"
    and stage: "moves (anchored v) stage" "\<And>q s1. stage s = (q, s1) \<Longrightarrow> unpushed s1 = unpushed s"
    and run: "stage_and_commit env c label stage message s = (r, s')"
  shows "mark_true v b s'"
proof -
  note run' = run [unfolded stage_and_commit_parts]
  obtain q s1 where q: "stage s = (q, s1)" by (cases "stage s")
  have 1: "mark_true v b s1" by (rule mark_true_anchored [OF assms(3) movesD [OF stage(1) q] stage(2) [OF q]])
  show ?thesis
  proof (cases q)
    case (Inl e)
    with q have "stage s = (Inl e, s1)" by simp
    from timed_raised_kept [where m = stage, OF laws 1 this run'] show ?thesis .
  next
    case (Inr x)
    with q have x: "stage s = (Inr x, s1)" by simp
    note rest = run' [unfolded timed_Inr [where m = stage, OF x]]
    show ?thesis
    proof (cases "ok x")
      case False
      with rest have "timed (record_failure env c (label @ '' stage'') Timeout)
          (record_failure env c (label @ '' stage'') (Rc (rc x))) ret s1 = (r, s')" by simp
      then show ?thesis by (rule timed_failure_kept [OF laws 1])
    next
      case True
      with rest have "index_part env c label message s1 = (r, s')" by simp
      then show ?thesis by (rule index_part_marks [OF laws ends 1])
    qed
  qed
qed

lemma handle_sync_sweep_marks:
  assumes laws: "git_laws env (git c) rem v" and ends: "movers_end env (git c) rem" and "mark_true v b s"
    and run: "handle_sync_sweep env c s = (r, s')"
  shows "mark_true v b s'"
proof -
  obtain ts w where w: "x_utcnow env (world s) = (ts, w)" by (cases "x_utcnow env (world s)")
  have "steady v (world s) w" using steady_calls(3) [OF laws_others [OF laws], of "world s"] w by simp
  then have 1: "mark_true v b (s\<lparr>world := w\<rparr>)"
    by (intro mark_true_anchored [OF assms(3)]) (simp_all add: steady_anchored)
  have "stage_and_commit env c ''sweep'' (add_all env (git c)) (''sync: auto '' @ format_ts ts) (s\<lparr>world := w\<rparr>)
      = (r, s')"
    using run w by (simp add: handle_sync_sweep_def sweep_message_def now_utc_def seq_def sys_def ret_def)
  moreover have "unpushed t1 = unpushed t" if "add_all env (git c) t = (q, t1)" for q t and t1 :: "('a, 'b) worker_st_scheme"
    using add_all_outcome [OF that] worker_fields(1) by blast
  ultimately show ?thesis
    by (intro stage_and_commit_marks [where stage = "add_all env (git c)", OF laws ends 1 add_anchored(1) [OF laws]])
qed

lemma handle_mcp_write_parts:
  "paths ev \<noteq> [] \<Longrightarrow> handle_mcp_write env y cfg c ev =
     andthen (stamping_part env y cfg c ev)
       (stage_and_commit env c ''mcp'' (add env (git c) (paths ev)) (mcp_message (operation ev) (paths ev)))"
  by (simp add: handle_mcp_write_def stamping_part_def)

lemma handle_mcp_write_marks:
  assumes laws: "git_laws env (git c) rem v" and ends: "movers_end env (git c) rem" and "mark_true v b s"
    and run: "handle_mcp_write env y cfg c ev s = (r, s')"
  shows "mark_true v b s'"
proof (cases "paths ev = []")
  case True
  with run assms(3) show ?thesis by (simp add: handle_mcp_write_def)
next
  case False
  obtain s1 where p: "stamping_part env y cfg c ev s = (Inr (), s1)"
    using stamping_part_never_raises [of env y cfg c ev] by (metis never_raises_def old.unit.exhaust)
  have 1: "mark_true v b s1"
    using movesD [OF stamping_part_steady [OF laws_others [OF laws]] p] worker_fields(1) [OF framesD [OF stamping_part_frame p]]
    by (intro mark_true_anchored [OF assms(3)]) (simp_all add: steady_anchored)
  have "stage_and_commit env c ''mcp'' (add env (git c) (paths ev)) (mcp_message (operation ev) (paths ev)) s1
      = (r, s')"
    using run False p by (simp add: handle_mcp_write_parts andthen_def seq_Inr)
  moreover have "unpushed t1 = unpushed t" if "add env (git c) (paths ev) t = (q, t1)" for q t and t1 :: "('a, 'b) worker_st_scheme"
    using add_outcome [OF that] worker_fields(1) by blast
  ultimately show ?thesis
    by (intro stage_and_commit_marks [where stage = "add env (git c) (paths ev)", OF laws ends 1 add_anchored(2) [OF laws]])
qed

lemma mark_true_trace [simp]: "mark_true v b (s\<lparr>trace := t\<rparr>) \<longleftrightarrow> mark_true v b s"
  by (simp add: mark_true_def)

lemma handle_event_marks:
  fixes s :: "('w, 'z) worker_st_scheme"
  assumes "git_laws env (git c) rem v" and "movers_end env (git c) rem" and "mark_true v b s"
    and "handle_event env y cfg c ev s = (r, s')"
  shows "mark_true v b s'"
proof -
  define m :: "('w, 'z, unit) worker_prog" where
    "m = (if kind ev = MCP_WRITE then handle_mcp_write env y cfg c ev
        else if kind ev = SYNC_SWEEP then handle_sync_sweep env c else ret ())"
  obtain q s1 where body: "m s = (q, s1)" by (cases "m s")
  then have "mark_true v b s1"
    using handle_mcp_write_marks [OF assms(1-3)] handle_sync_sweep_marks [OF assms(1-3)] assms(3)
    by (auto simp: m_def split: if_splits)
  moreover have "s' = s1 \<or> s' = s1\<lparr>trace := trace s1 @ [ELog Exception (MEventFailed (kind ev))]\<rparr>"
    using assms(4) body
    by (auto simp: handle_event_def m_def [symmetric] attempt_def except_any_def emit_def split: sum.splits)
  ultimately show ?thesis by auto
qed

text \<open>The laws, and a mark that is true: kept by every round of the worker.\<close>

definition books_true :: "'w env \<Rightarrow> worker_conf \<Rightarrow> ('w \<Rightarrow> repo) \<Rightarrow> string \<Rightarrow> ('w, 'z) worker_st_scheme \<Rightarrow> bool" where
  "books_true env c v b s \<longleftrightarrow> git_laws env (git c) (remote c) v \<and> movers_end env (git c) (remote c) \<and>
     aborts_work env (git c) (remote c) v \<and> pushes_from c b \<and> mark_true v b s"

lemma run_iteration_marks:
  fixes s :: "('w, 'z) worker_st_scheme"
  assumes "books_true env c v b s" and "run_iteration env y cfg c answer s = (r, s')"
  shows "books_true env c v b s'"
proof -
  note bt = assms(1) [unfolded books_true_def]
  have clock: "mark_true v b (s1\<lparr>world := w\<rparr>)" if "mark_true v b s1" "push_overdue env c s1 = (q, s1\<lparr>world := w\<rparr>)"
    for s1 :: "('w, 'z) worker_st_scheme" and q w
  proof -
    have "moves (steady v) (push_overdue env c)"
      unfolding push_overdue_def
      using bt by (intro steady.moves_intros steady_calls laws_others) blast
    from movesD [OF this that(2)] that(1) show ?thesis
      by (intro mark_true_anchored [OF that(1)]) (simp_all add: steady_anchored)
  qed
  have "mark_true v b s'"
  proof (cases answer)
    case None
    with assms(2) bt show ?thesis by (intro maybe_push_marks [of env c v b s r s']) (simp_all add: run_iteration_def)
  next
    case (Some ev)
    obtain s1 where h: "handle_event env y cfg c ev s = (Inr (), s1)"
      using handle_event_never_raises [of env y cfg c ev] by (metis never_raises_def old.unit.exhaust)
    have 1: "mark_true v b s1" using handle_event_marks [of env c "remote c" v b s, OF _ _ _ h] bt by blast
    obtain d w where o: "push_overdue env c s1 = (Inr d, s1\<lparr>world := w\<rparr>)" using push_overdue_run [of env c s1] by blast
    have rest: "(if d then maybe_push env c else ret ()) (s1\<lparr>world := w\<rparr>) = (r, s')"
      using assms(2) Some h o by (simp add: run_iteration_def andthen_def seq_Inr)
    show ?thesis
    proof (cases d)
      case False
      with rest clock [OF 1 o] show ?thesis by simp
    next
      case True
      with rest bt clock [OF 1 o] show ?thesis by (intro maybe_push_marks [of env c v b _ r s']) simp_all
    qed
  qed
  with bt show ?thesis by (simp add: books_true_def)
qed

interpretation truthful: fail_soft_inv "run_iteration env y cfg c" "books_true env c v b" for env y cfg c v b
  by unfold_locales (metis run_iteration_marks prod.collapse)


text \<open>With nothing new on the remote, a push cycle leaves what is checked out.\<close>

lemma push_once_anchored:
  assumes laws: "git_laws env (git c) (remote c) v" and ends: "syncs_end env (git c) (remote c)"
    and abort: "aborts_work env (git c) (remote c) v" and "branch c \<noteq> []"
    and on: "on_branch (v (world s)) = Some (branch c)"
    and old: "remote_has (v (snd (x_run env (fetch_argv (git c) (remote c)) (world s)))) \<subseteq> set (history (v (world s)))"
    and run: "push_once env c s = (r, s')"
  shows "anchored v (world s) (world s')"
proof -
  obtain s2 where s2: "sync_remote env c (branch c) s = (Inr (), s2)"
    using syncs_return [OF ends] by (metis never_raises_def old.unit.exhaust)
  have "push_part env c (branch c) s2 = (r, s')"
    using run assms(4) s2 by (simp add: push_once_parts resolve_branch_def seq_Inr andthen_def)
  from steady_anchored [OF movesD [OF push_part_steady [OF laws] this]]
  have "anchored v (world s2) (world s')" .
  moreover have "anchored v (world s) (world s2)" using sync_remote_world [OF laws abort _ s2] old on by simp
  ultimately show ?thesis by (blast intro: anchored.trans)
qed

lemma maybe_push_anchored:
  assumes "git_laws env (git c) (remote c) v" and "syncs_end env (git c) (remote c)"
    and "aborts_work env (git c) (remote c) v" and "branch c \<noteq> []"
    and "on_branch (v (world s)) = Some (branch c)"
    and "remote_has (v (snd (x_run env (fetch_argv (git c) (remote c)) (world s)))) \<subseteq> set (history (v (world s)))"
    and "maybe_push env c s = (r, s')"
  shows "anchored v (world s) (world s')"
proof (cases "unpushed s \<and> remote c \<noteq> []")
  case False
  with assms(7) show ?thesis by (auto simp: maybe_push_def seq_def gets_def anchored.refl)
next
  case True
  obtain q s1 where q: "push_once env c s = (q, s1)" by (cases "push_once env c s")
  with assms(7) True have "world s' = world s1"
    by (auto simp: maybe_push_def seq_def gets_def attempt_def emit_def ret_def split: sum.splits exn.splits)
  with push_once_anchored [OF assms(1-6) q] show ?thesis by simp
qed

text \<open>A healthy sweep, from its two ends.\<close>

lemma swept_files:
  assumes "git_laws env (git c) (remote c) v" and "handle_sync_sweep env c s = (Inr (), s')" and "\<not> degraded s'"
    and "w0 = snd (x_utcnow env (world s))" and "w1 = snd (x_run env (add_all_argv (git c)) w0)"
    and "files (v w0) p = files (v w1) p"
  shows "head_files (v (world s')) p = files (v w0) p"
proof -
  obtain ts where w: "x_utcnow env (world s) = (ts, w0)" using assms(4) by (cases "x_utcnow env (world s)") simp
  have "stage_and_commit env c ''sweep'' (add_all env (git c)) (''sync: auto '' @ format_ts ts) (s\<lparr>world := w0\<rparr>)
      = (Inr (), s')"
    using assms(2) w by (simp add: handle_sync_sweep_def sweep_message_def now_utc_def seq_def sys_def ret_def)
  then obtain x s1 where x: "add_all env (git c) (s\<lparr>world := w0\<rparr>) = (Inr x, s1)" "ok x"
    "head_files (v (world s')) = index (v (world s1))"
    by (rule healthy_cycle_commits [where stage = "add_all env (git c)", OF assms(1) _ assms(3)])
  have "world s1 = w1"
    using run_git_world_snd [of env "git c" "[''add'', ''-A'']" "s\<lparr>world := w0\<rparr>"] x(1) assms(5) by (simp add: add_all_def)
  with add_all_stages(2) [OF assms(1) x(1,2), of p] x(3) assms(6) show ?thesis by (simp add: stages_def)
qed

text \<open>A sweep that found nothing to commit has moved nothing.\<close>

lemma empty_sweep_anchored:
  assumes "git_laws env (git c) rem v" and "handle_sync_sweep env c s = (Inr (), s')" and "\<not> degraded s'"
    and "cmds (new_effects s s') = [(''add'', Some 0), (''diff'', Some 0)]"
  shows "anchored v (world s) (world s')"
proof -
  obtain ts w where w: "x_utcnow env (world s) = (ts, w)" by (cases "x_utcnow env (world s)")
  have "steady v (world s) w" using steady_calls(3) [OF laws_others [OF assms(1)], of "world s"] w by simp
  moreover have "stage_and_commit env c ''sweep'' (add_all env (git c)) (''sync: auto '' @ format_ts ts) (s\<lparr>world := w\<rparr>)
      = (Inr (), s')"
    using assms(2) w by (simp add: handle_sync_sweep_def sweep_message_def now_utc_def seq_def sys_def ret_def)
  then have "anchored v w (world s')"
    using assms(3)
  proof (cases rule: stage_and_commit_healthy)
    case (clean x s1 s2)
    from movesD [OF add_anchored(1) [OF assms(1)] clean(1)]
      steady_anchored [OF movesD [OF has_staged_steady [OF assms(1)] clean(3)]] record_clean_world [OF clean(4)]
    show ?thesis by (auto intro: anchored.trans)
  next
    case (committed x s1 s2 y s3)
    obtain es1 where 1: "trace s1 = trace s @ es1" "cmds es1 = [(''add'', Some (rc x))]"
      using add_all_outcome [OF committed(1)] by (auto simp: cmds_def)
    obtain es2 k where 2: "trace s2 = trace s1 @ es2" "cmds es2 = [(''diff'', Some k)]" "k \<noteq> 0"
      using has_staged_outcome [OF committed(3)] by (auto simp: cmds_def)
    obtain es3 where 3: "trace s3 = trace s2 @ es3" using commit_outcome [OF committed(4)] by blast
    obtain es4 where 4: "trace s' = trace s3 @ es4" using record_clean_outcome [OF committed(6)] by auto
    have "new_effects s s' = es1 @ es2 @ es3 @ es4" using 1(1) 2(1) 3 4 by (simp add: new_effects_def)
    with assms(4) 1(2) 2(2,3) show ?thesis by simp
  qed
  ultimately show ?thesis by (blast intro: anchored.trans steady_anchored)
qed

text \<open>A healthy write, from its two ends.\<close>

lemma committed_write:
  assumes "git_laws env (git c) (remote c) v" and "handle_mcp_write env y cfg c ev s = (Inr (), s')"
    and "\<not> degraded s'" and "p \<in> set (paths ev)" and "plain_path p"
    and "stamping_part env y cfg c ev s = (Inr (), s0)"
    and "files (v (world s0)) p = files (v (snd (x_run env (add_argv (git c) (paths ev)) (world s0)))) p"
  shows "head_files (v (world s')) p = files (v (world s0)) p"
proof -
  have "paths ev \<noteq> []" using assms(4) by auto
  then have "stage_and_commit env c ''mcp'' (add env (git c) (paths ev)) (mcp_message (operation ev) (paths ev)) s0
      = (Inr (), s')"
    using assms(2,6) by (simp add: handle_mcp_write_parts andthen_def seq_Inr)
  then obtain x s1 where x: "add env (git c) (paths ev) s0 = (Inr x, s1)" "ok x"
    "head_files (v (world s')) = index (v (world s1))"
    by (rule healthy_cycle_commits [where stage = "add env (git c) (paths ev)", OF assms(1) _ assms(3)])
  have "world s1 = snd (x_run env (add_argv (git c) (paths ev)) (world s0))"
    using run_git_world_snd [of env "git c" "[''add'', ''-A'', ''--''] @ paths ev" s0] x(1) by (simp add: add_def)
  with add_stages(2) [OF assms(1) x(1,2) assms(4,5)] x(3) assms(7) show ?thesis by (simp add: stages_def)
qed

text \<open>What a note that was stamped holds: the text of the one write, which nothing came after.\<close>

lemma stamp_wrote:
  assumes "stamp env y p s = (Inr True, s')"
  shows "\<exists>t w. x_write env p t w = (Inr (), world s') \<and> trace s' = trace s @ [EWrite p t]"
proof -
  have "restamp env y p original body data s1 = (Inr True, s') \<Longrightarrow> trace s1 = trace s \<Longrightarrow> ?thesis"
    for original body data and s1 :: "('a, 'b) io_scheme"
    by (auto simp: restamp_def now_utc_def write_text_def seq_eq_Inr andthen_eq_Inr sys_def sys_try_def emit_def
        Let_def split: prod.splits if_splits)
  moreover have "stamp_body env y p s = (Inr True, s')"
    using assms by (auto simp: stamp_def attempt_eq andthen_eq_Inr emit_def)
  ultimately show ?thesis
    by (auto simp: stamp_body_def read_text_def seq_def sys_def sys_try_def Let_def
        split: prod.splits sum.splits if_splits)
qed

text \<open>Writing the note \<open>p\<close> of the vault changes that file.\<close>

definition writes_land :: "'w env \<Rightarrow> git_conf \<Rightarrow> ('w \<Rightarrow> repo) \<Rightarrow> string \<Rightarrow> bool" where
  "writes_land env g v p \<longleftrightarrow>
     (\<forall>t w w'. x_write env (joinpath (vault g) p) t w = (Inr (), w') \<longrightarrow> files (v w') p = Some t)"

section \<open>Properties\<close>

text \<open>
  C3: A healthy sweep saves the vault. Under the laws of git, when the sweep returns with a healthy worker,
  every file that nobody touched while \<^verbatim>\<open>git add -A\<close> ran is in the checked out revision as it was, and a file
  that was gone is gone there too; that holds whether there was something to commit or not. So "nothing to commit" is never
  mistaken for "cannot commit".
\<close>

theorem healthy_sweep_saves_vault:
  assumes "git_laws env (git c) (remote c) v" and "handle_sync_sweep env c s = (Inr (), s')" and "\<not> degraded s'"
    and "w0 = snd (x_utcnow env (world s))" and "w1 = snd (x_run env (add_all_argv (git c)) w0)"
    and "files (v w0) p = files (v w1) p"
  shows "head_files (v (world s')) p = files (v w0) p"
  using assms by (rule swept_files)

text \<open>
  C4: A healthy write is committed. Under the laws of git, when handling a write that names its paths returns with a
  healthy worker, each of these files that nobody touched while \<^verbatim>\<open>git add\<close> ran is in the checked out revision
  as stamping left it, or is gone there if it was deleted. (A path that begins with a colon is something else to git.)
\<close>

theorem healthy_write_is_committed:
  assumes "git_laws env (git c) (remote c) v" and "handle_mcp_write env y cfg c ev s = (Inr (), s')"
    and "\<not> degraded s'" and "p \<in> set (paths ev)" and "plain_path p"
    and "stamping_part env y cfg c ev s = (Inr (), s0)"
    and "files (v (world s0)) p = files (v (snd (x_run env (add_argv (git c) (paths ev)) (world s0)))) p"
  shows "head_files (v (world s')) p = files (v (world s0)) p"
  using assms by (rule committed_write)

text \<open>
  C5: The stamp lands in the same commit. Under the laws of git, when a write of one note is handled with stamping on and
  the note was stamped, and the worker is healthy afterwards (so that staging and commit went well), then the checked out
  revision holds the note with the very text that stamping wrote, unless somebody touched the note while
  \<^verbatim>\<open>git add\<close> ran. The path of the note does not begin with a colon.
\<close>

theorem stamp_lands_in_commit:
  assumes "git_laws env (git c) (remote c) v" and "writes_land env (git c) v p" and "plain_path p"
    and "stamp_enabled cfg" and "operation ev \<noteq> Some ''deleted''" and "paths ev = [p]"
    and "stamp env y (joinpath (vault (git c)) p) s = (Inr True, s0)"
    and "handle_mcp_write env y cfg c ev s = (Inr (), s')" and "\<not> degraded s'"
    and "files (v (world s0)) p = files (v (snd (x_run env (add_argv (git c) [p]) (world s0)))) p"
  shows "\<exists>t. new_effects s s0 = [EWrite (joinpath (vault (git c)) p) t] \<and> head_files (v (world s')) p = Some t"
proof -
  obtain t w where t: "x_write env (joinpath (vault (git c)) p) t w = (Inr (), world s0)"
    "trace s0 = trace s @ [EWrite (joinpath (vault (git c)) p) t]"
    using stamp_wrote [OF assms(7)] by blast
  have "stamping_part env y cfg c ev s = (Inr (), s0)"
    using assms(4-7)
    by (simp add: stamping_part_def event_paths_def stamp_paths_def stamp_one_def attempt_def andthen_def seq_def ret_def)
  from committed_write [OF assms(1,8,9) _ assms(3) this] assms(6,10)
  have "head_files (v (world s')) p = files (v (world s0)) p" by simp
  moreover have "files (v (world s0)) p = Some t" using assms(2) t(1) unfolding writes_land_def by blast
  ultimately show ?thesis using t(2) by (simp add: new_effects_def)
qed

text \<open>
  C9: From the vault to the remote. Let git keep its laws, let its commits, rebases, aborts and fetches end (the other
  commands may be killed by the timeout), let an abort succeed where a rebase stopped, and let the push succeed. Let a
  remote and a branch be configured, let that branch be checked out, and let the mark be true beforehand: where it is
  clear, everything is on the remote. After a
  healthy sweep, one quiet window then brings everything that is committed to the remote; and if the fetch brought nothing
  new, what is checked out, and so on the remote, holds every file that nobody touched while it was staged.
\<close>

theorem quiet_window_backs_up:
  assumes "git_laws env (git c) (remote c) v" and "syncs_end env (git c) (remote c)"
    and "aborts_work env (git c) (remote c) v" and "always_exits env (push_argv c) 0"
    and "remote c \<noteq> []" and "branch c \<noteq> []" and "mark_true v (branch c) s"
    and "handle_sync_sweep env c s = (Inr (), s1)" and "\<not> degraded s1"
    and "run_iteration env y cfg c None s1 = (r, s2)"
    and "w0 = snd (x_utcnow env (world s))" and "w1 = snd (x_run env (add_all_argv (git c)) w0)"
  shows "delivered (v (world s2)) \<and>
    (remote_has (v (snd (x_run env (fetch_argv (git c) (remote c)) (world s1)))) \<subseteq> set (history (v (world s1))) \<longrightarrow>
     files (v w0) p = files (v w1) p \<longrightarrow> head_files (v (world s2)) p = files (v w0) p)"
proof -
  have push: "maybe_push env c s1 = (r, s2)" using assms(10) by (simp add: run_iteration_def)
  note ends = syncs_movers [OF assms(2)]
  have 1: "mark_true v (branch c) s1" by (rule handle_sync_sweep_marks [OF assms(1) ends assms(7,8)])
  have "mark_true v (branch c) s2"
    by (rule maybe_push_marks [OF assms(1) ends assms(3) _ 1 push]) (simp add: pushes_from_def)
  moreover have "\<not> unpushed s2"
  proof (cases "unpushed s1")
    case True
    from maybe_push_delivers [OF syncs_return [OF assms(2)] assms(4-6) True push] show ?thesis by blast
  next
    case False
    with push_protocol [OF push] show ?thesis by blast
  qed
  ultimately have "delivered (v (world s2))" by (simp add: mark_true_def)
  moreover have on: "on_branch (v (world s1)) = Some (branch c)" using 1 by (simp add: mark_true_def)
  ultimately show ?thesis
    using anchored_head [OF maybe_push_anchored [OF assms(1-3,6) on _ push]]
      swept_files [OF assms(1,8,9,11,12)] by auto
qed

text \<open>
  C37: A commit that is killed is forgotten. When the commit of a sweep runs into the timeout, the mark of unpushed commits
  is not set, although git may have made the commit before it was killed (the laws leave that open). The worker is
  degraded then, but the next sweep that finds nothing staged makes it healthy again, still without the mark, and leaves
  the same revision checked out; and quiet windows, before and after it, run nothing. So the commit is not pushed until
  another one is made.
\<close>

theorem killed_commit_is_forgotten:
  assumes "git_laws env (git c) (remote c) v" and "\<not> unpushed s"
    and "handle_sync_sweep env c s = (Inr (), s1)" and "(''commit'', None) \<in> set (cmds (new_effects s s1))"
    and "handle_sync_sweep env c s1 = (Inr (), s2)"
    and "cmds (new_effects s1 s2) = [(''add'', Some 0), (''diff'', Some 0)]"
  shows "degraded s1 \<and> \<not> unpushed s1 \<and> run_iteration env y cfg c None s1 = (Inr (), s1) \<and>
    \<not> degraded s2 \<and> \<not> unpushed s2 \<and> run_iteration env y cfg c None s2 = (Inr (), s2) \<and>
    anchored v (world s1) (world s2)"
proof -
  obtain os clean commits where 1: "cycle_shape os clean commits" "cycle_end s (Inr ()) s1 os clean commits"
    using handle_sync_sweep_end [OF assms(3)] by blast
  then have "os = cmds (new_effects s s1)" by (auto simp: cycle_end_def new_effects_def)
  with 1(1) assms(4) have "\<not> clean" "\<not> commits" by (auto simp: cycle_shape_def)
  with 1(2) assms(2) have s1: "degraded s1" "\<not> unpushed s1" by (auto simp: cycle_end_def degraded_def)
  obtain os' clean' commits' where 2: "cycle_shape os' clean' commits'" "cycle_end s1 (Inr ()) s2 os' clean' commits'"
    using handle_sync_sweep_end [OF assms(5)] by blast
  then have "os' = cmds (new_effects s1 s2)" by (auto simp: cycle_end_def new_effects_def)
  with 2(1) assms(6) have "clean'" "\<not> commits'" by (auto simp: cycle_shape_def)
  with 2(2) s1(2) have s2: "\<not> degraded s2" "\<not> unpushed s2" by (auto simp: cycle_end_def degraded_def)
  with s1 empty_sweep_anchored [OF assms(1,5) s2(1) assms(6)] show ?thesis
    by (simp add: run_iteration_def maybe_push_def seq_def gets_def)
qed

end
