(* ===== verification/Extension.thy ===== *)
theory Extension
  imports WorkerHealth
begin

text \<open>
  \<^verbatim>\<open>extension.py\<close>: the object the upstream server loads. It owns the event queue, attaches the two
  listeners before the index starts, and starts the worker and the sweep timer after it.
\<close>

section \<open>State\<close>

text \<open>
  The thread of the worker: it looks at the stop flag at the top of its loop (\<open>Checking\<close>), waits for the
  queue (\<open>Blocked\<close>), and has ended when it saw the flag.
\<close>

datatype thread = NotStarted | Checking | Blocked | Ended

text \<open>
  The attributes of the extension next to those of its worker. The two listeners are held by the
  upstream server once they are registered; \<open>timer\<close> is the interval of the running timer thread.
\<close>

record 'w ext_st = "'w worker_st" +
  enabled :: bool
  events :: event_queue
  timer_stop :: bool
  timer :: "int option"
  worker :: "worker_conf option"
  worker_stop :: bool
  worker_thread :: thread
  write_listener :: bool
  change_listener :: bool

type_synonym ('w, 'z, 'a) ext_prog = "(('w, 'z) ext_st_scheme, 'a) prog"

section \<open>Lifecycle\<close>

text \<open>\<^verbatim>\<open>__init__\<close>: the enable flag is read once.\<close>

definition new_extension :: "settings \<Rightarrow> ('w, 'z, unit) ext_prog" where
  "new_extension cfg =
     modify (\<lambda>s. s\<lparr>enabled := is_enabled cfg, events := new_queue, timer_stop := False, timer := None,
       worker := None, worker_stop := False, worker_thread := NotStarted,
       write_listener := False, change_listener := False\<rparr>)"

definition before_indexes_start :: "'w env \<Rightarrow> settings \<Rightarrow> ('w, 'z, unit) ext_prog" where
  "before_indexes_start env cfg =
     seq (gets enabled) (\<lambda>on.
       if \<not> on then log Info MExtDisabled
       else andthen (validate_gitsync env cfg)
         (andthen (modify (\<lambda>s. s\<lparr>write_listener := True\<rparr>))
         (andthen (modify (\<lambda>s. s\<lparr>change_listener := True\<rparr>))
            (log Info MExtEnabled))))"

text \<open>\<^verbatim>\<open>GitWorker.start\<close> and what of \<^verbatim>\<open>GitWorker.stop\<close> comes before the flush.\<close>

definition start_worker :: "('w, 'z, unit) ext_prog" where
  "start_worker = modify (\<lambda>s. s\<lparr>worker_thread := Checking\<rparr>)"

definition startup_sweep :: "'w env \<Rightarrow> worker_conf \<Rightarrow> ('w, 'z, unit) ext_prog" where
  "startup_sweep env c =
     attempt (seq (git_dir env (git c)) (\<lambda>d. sweep env d)) (except_any (log Exception MLockSweepFailed))"

text \<open>What \<^verbatim>\<open>int\<close> and \<^verbatim>\<open>float\<close> raise for a text they cannot read.\<close>

definition bad_int :: "string \<Rightarrow> exn" where
  "bad_int raw = ValueError (''invalid literal for int() with base 10: '' @ py_repr raw)"

definition bad_float :: "string \<Rightarrow> exn" where
  "bad_float raw = ValueError (''could not convert string to float: '' @ py_repr raw)"

definition worker_from_config :: "settings \<Rightarrow> exn + worker_conf" where
  "worker_from_config cfg =
     (case from_config cfg of
        Some c \<Rightarrow> Inr c
      | None \<Rightarrow>
          Inl (bad_float (if cfg_push_debounce cfg = None then VAULT_GIT_PUSH_DEBOUNCE cfg
                          else VAULT_GIT_PUSH_MAX_INTERVAL cfg)))"

definition after_indexes_start :: "'w env \<Rightarrow> settings \<Rightarrow> ('w, 'z, unit) ext_prog" where
  "after_indexes_start env cfg =
     seq (gets enabled) (\<lambda>on.
       if \<not> on then ret ()
       else seq (of_sum (worker_from_config cfg)) (\<lambda>c.
         andthen (new_worker env)
         (andthen (modify (\<lambda>s. s\<lparr>worker := Some c, git_dir_cache := None\<rparr>))
         (andthen (startup_sweep env c)
         (andthen start_worker
           (case sweep_interval cfg of
              None \<Rightarrow> throw (bad_int (VAULT_GIT_SWEEP_INTERVAL cfg))
            | Some interval \<Rightarrow> modify (\<lambda>s. s\<lparr>timer := Some interval\<rparr>)))))))"

section \<open>Producers\<close>

text \<open>The callbacks of the two listeners, and one round of the timer's loop.\<close>

definition enqueue :: "sync_event \<Rightarrow> ('w, 'z, unit) ext_prog" where
  "enqueue ev = modify (\<lambda>s. s\<lparr>events := put (events s) ev\<rparr>)"

definition on_write :: "string \<Rightarrow> string list \<Rightarrow> ('w, 'z, unit) ext_prog" where
  "on_write oper ps = enqueue (mcp_write oper ps)"

definition on_change :: "('w, 'z, unit) ext_prog" where
  "on_change = enqueue (sync_sweep ''watcher'')"

text \<open>\<open>False\<close> says that the loop ended, because the stop flag was set when the wait was over.\<close>

definition sweep_tick :: "('w, 'z, bool) ext_prog" where
  "sweep_tick =
     seq (gets timer_stop) (\<lambda>stopped.
       if stopped then ret False else andthen (enqueue (sync_sweep ''timer'')) (ret True))"

section \<open>Shutdown\<close>

text \<open>
  \<^verbatim>\<open>shutdown\<close> up to the join: the timer is told to stop first, then the worker. The last step of
  \<^verbatim>\<open>GitWorker.stop\<close>, after the join, is the flush.
\<close>

definition signal_shutdown :: "('w, 'z, unit) ext_prog" where
  "signal_shutdown =
     andthen (modify (\<lambda>s. s\<lparr>timer_stop := True\<rparr>))
       (seq (gets worker) (\<lambda>w. case w of
          None \<Rightarrow> ret ()
        | Some c \<Rightarrow> modify (\<lambda>s. s\<lparr>worker_stop := True\<rparr>)))"

definition final_flush :: "'w env \<Rightarrow> ('w, 'z, unit) ext_prog" where
  "final_flush env = seq (gets worker) (\<lambda>w. case w of None \<Rightarrow> ret () | Some c \<Rightarrow> maybe_push env c)"

section \<open>The worker thread\<close>

text \<open>One round of \<^verbatim>\<open>run\<close>: the look at the flag, and the iteration for what the queue gave.\<close>

definition check_stop :: "('w, 'z, unit) ext_prog" where
  "check_stop = modify (\<lambda>s. s\<lparr>worker_thread := (if worker_stop s then Ended else Blocked)\<rparr>)"

definition consume ::
  "'w env \<Rightarrow> 'd yaml \<Rightarrow> settings \<Rightarrow> worker_conf \<Rightarrow> sync_event option \<Rightarrow> event_queue \<Rightarrow> ('w, 'z, unit) ext_prog" where
  "consume env y cfg c answer rest =
     andthen (modify (\<lambda>s. s\<lparr>events := rest\<rparr>))
       (andthen (run_iteration env y cfg c answer)
         (modify (\<lambda>s. s\<lparr>worker_thread := Checking\<rparr>)))"

end
