(* ===== verification/SystemModel.thy ===== *)
theory SystemModel
  imports Extension
begin

text \<open>
  The running system as a step relation: the producers, the timer, the worker thread and the
  shutdown, interleaved in any order. A round of the worker is one step; the producers only append
  to the queue, so a producer that acts during a round acts just before or after it. A wait on the queue is the
  looks at the clock that it makes (\<open>wait_get\<close>, \<open>clock_looks\<close>). The flush of
  \<^verbatim>\<open>stop\<close> waits for the thread to end, but only for a limited time, so it can be made whatever the thread
  does; that it overlaps with a round is outside the model.
\<close>

section \<open>The worker leaves the extension alone\<close>

lemma frames_ext_sys [frame_intros]: "frames worker_st.more (sys f)"
  by (rule frames_sysI) simp

lemma frames_ext_sys_try [frame_intros]: "frames worker_st.more (sys_try f)"
  by (rule frames_sys_tryI) simp

lemma frames_ext_emit [frame_intros]: "frames worker_st.more (emit e)"
  by (rule frames_emitI) simp

lemma frames_ext_git [frame_intros]: "frames worker_st.more (run_git env g args)"
  by (rule frames_run_git) simp

lemma frames_ext_fields [frame_intros]:
  "frames worker_st.more (modify (\<lambda>s. s\<lparr>git_dir_cache := c\<rparr>))"
  "frames worker_st.more (modify (\<lambda>s. s\<lparr>unpushed := b\<rparr>))"
  "frames worker_st.more (modify (\<lambda>s. s\<lparr>last_push := x\<rparr>))"
  "frames worker_st.more (modify (\<lambda>s. s\<lparr>degraded_rc := d\<rparr>))"
  by (simp_all add: frames_def modify_def)

lemma git_dir_ext: "frames worker_st.more (git_dir env g)"
  unfolding git_dir_def Let_def
  by (intro frame_intros) (auto split: option.split intro!: frame_intros)

lemma record_failure_ext: "frames worker_st.more (record_failure env c what code)"
  unfolding record_failure_def lock_note_def Let_def
  by (auto intro!: frame_intros git_dir_ext frames_describe_present)

lemma record_clean_ext: "frames worker_st.more record_clean"
  unfolding record_clean_def by (auto intro!: frame_intros split: option.split)

lemma timed_ext:
  "frames f h \<Longrightarrow> frames f m \<Longrightarrow> (\<And>x. frames f (k x)) \<Longrightarrow> frames f (timed h m k)"
  unfolding timed_def
  by (intro frame_intros) (auto split: option.split if_splits intro!: frame_intros simp: except_timeout_def)

lemma stage_and_commit_ext:
  "frames worker_st.more stage \<Longrightarrow> frames worker_st.more (stage_and_commit env c label stage message)"
  unfolding stage_and_commit_def Let_def has_staged_def commit_def
  by (auto intro!: timed_ext record_failure_ext record_clean_ext frame_intros)

lemma handle_event_ext: "frames worker_st.more (handle_event env y cfg c ev)"
  unfolding handle_event_def handle_mcp_write_def handle_sync_sweep_def sweep_message_def now_utc_def
    add_def add_all_def
  by (auto intro!: frame_intros stage_and_commit_ext frames_stamp_paths simp: except_any_def)

lemma maybe_push_ext: "frames worker_st.more (maybe_push env c)"
  unfolding maybe_push_def push_once_def resolve_branch_def current_branch_def sync_remote_def
    rebase_part_def pushed_def fetch_def rebase_theirs_def rebase_abort_def push_def Let_def
  by (auto intro!: frame_intros frames_ping split: option.split exn.splits)

lemma run_iteration_ext: "frames worker_st.more (run_iteration env y cfg c answer)"
  unfolding run_iteration_def push_overdue_def
  by (auto intro!: frame_intros handle_event_ext maybe_push_ext split: option.split)

text \<open>So the extension's own fields survive.\<close>

lemma ext_fields:
  assumes "worker_st.more s' = worker_st.more s"
  shows "enabled s' = enabled s" "events s' = events s" "timer_stop s' = timer_stop s" "timer s' = timer s"
    "worker s' = worker s" "worker_stop s' = worker_stop s" "worker_thread s' = worker_thread s"
    "write_listener s' = write_listener s" "change_listener s' = change_listener s"
  using assms by (cases s; cases s'; simp)+

section \<open>The start\<close>

lemma frames_more_sys_try [frame_intros]: "frames git_st.more (sys_try f)"
  by (rule frames_sys_tryI) simp

lemma startup_sweep_never_raises: "never_raises (startup_sweep env c)"
  unfolding startup_sweep_def by (rule never_raises_attempt_any) simp

lemma sweep_frame: "frames git_st.more (sweep env d)"
proof -
  have stat: "frames git_st.more (stat_locks env d now ps)" for now ps
    by (induction ps) (auto intro!: frame_intros simp: except_os_def split: option.split exn.splits)
  have scan: "frames git_st.more (scan_comm env es)" for es
    by (induction es)
       (auto intro!: frame_intros simp: except_os_def read_text_def split: option.split exn.splits)
  show ?thesis
    unfolding sweep_def sweep_lock_def find_locks_def glob_locks_def rglob_locks_def git_running_def Let_def
    by (auto intro!: frame_intros stat scan simp: except_os_def read_text_def
        split: option.split exn.splits list.split)
qed

lemma startup_sweep_frame: "frames git_st.more (startup_sweep env c)"
  unfolding startup_sweep_def
  by (auto intro!: frame_intros git_dir_frame sweep_frame simp: except_any_def)

text \<open>A start that returns, by the enable flag.\<close>

lemma start_cases:
  assumes "after_indexes_start env cfg s = (Inr (), s')"
  obtains (off) "\<not> enabled s" "s' = s"
  | (on) c n s1 s2 where "enabled s" "from_config cfg = Some c" "sweep_interval cfg = Some n"
      "\<not> unpushed s1" "degraded_rc s1 = None" "trace s1 = trace s"
      "worker_st.more s1 = worker_st.more (s\<lparr>worker := Some c\<rparr>)"
      "startup_sweep env c s1 = (Inr (), s2)" "s' = s2\<lparr>worker_thread := Checking, timer := Some n\<rparr>"
proof (cases "enabled s")
  case False
  with assms show thesis by (intro off) (auto simp: after_indexes_start_def seq_def gets_def ret_def)
next
  case True
  with assms obtain c n s2 where c: "from_config cfg = Some c" "sweep_interval cfg = Some n"
    and run: "andthen (new_worker env) (andthen (modify (\<lambda>s. s\<lparr>worker := Some c, git_dir_cache := None\<rparr>))
        (startup_sweep env c)) s = (Inr (), s2)"
    and s': "s' = s2\<lparr>worker_thread := Checking, timer := Some n\<rparr>"
    by (fastforce simp: after_indexes_start_def worker_from_config_def run_ends gets_def start_worker_def
        modify_def split: option.splits)
  obtain now w where "x_monotonic env (world s) = (now, w)" by (cases "x_monotonic env (world s)")
  with run have "startup_sweep env c (s\<lparr>unpushed := False, degraded_rc := None, world := w, last_push := now,
      worker := Some c, git_dir_cache := None\<rparr>) = (Inr (), s2)"
    by (simp add: new_worker_def andthen_def seq_def modify_def sys_def)
  from on [OF True c _ _ _ _ this s'] show thesis by (cases s) simp
qed

text \<open>What the start leaves of the extension's state, and the state of the new worker.\<close>

lemma start_on_fields:
  assumes "worker_st.more s1 = worker_st.more (s\<lparr>worker := Some c\<rparr>)"
    and "startup_sweep env c s1 = (Inr (), s2)" and "\<not> unpushed s1" and "degraded_rc s1 = None"
    and "s' = s2\<lparr>worker_thread := Checking, timer := Some n\<rparr>"
  shows "events s' = events s" "timer_stop s' = timer_stop s" "worker_stop s' = worker_stop s"
    "enabled s' = enabled s" "worker s' = Some c" "write_listener s' = write_listener s"
    "change_listener s' = change_listener s" "\<not> unpushed s'" "degraded_rc s' = None"
    "worker_thread s' = Checking" "timer s' = Some n"
proof -
  have m: "git_st.more s2 = git_st.more s1" by (rule framesD [OF startup_sweep_frame assms(2)])
  then have "worker_st.more s2 = worker_st.more (s\<lparr>worker := Some c\<rparr>)"
    using assms(1) by (cases s1; cases s2) simp
  from ext_fields [OF this] worker_fields [OF m] assms(3-5) show
    "events s' = events s" "timer_stop s' = timer_stop s" "worker_stop s' = worker_stop s"
    "enabled s' = enabled s" "worker s' = Some c" "write_listener s' = write_listener s"
    "change_listener s' = change_listener s" "\<not> unpushed s'" "degraded_rc s' = None"
    "worker_thread s' = Checking" "timer s' = Some n"
    by simp_all
qed

section \<open>Steps\<close>

datatype label =
    Start
  | Write string "string list"
  | Change
  | Tick
  | Check
  | Consume sync_event
  | Quiet
  | Crash
  | Signal
  | Flush

inductive sys_step ::
  "'w env \<Rightarrow> 'd yaml \<Rightarrow> settings \<Rightarrow> 'w ext_st \<Rightarrow> label \<Rightarrow> 'w ext_st \<Rightarrow> bool"
  for env :: "'w env" and y :: "'d yaml" and cfg :: settings where
  do_start:
    "worker_thread s = NotStarted \<Longrightarrow> \<not> timer_stop s \<Longrightarrow>
     after_indexes_start env cfg s = (Inr (), s') \<Longrightarrow> sys_step env y cfg s Start s'"
| do_write: "write_listener s \<Longrightarrow> on_write oper ps s = (Inr (), s') \<Longrightarrow> sys_step env y cfg s (Write oper ps) s'"
| do_change: "change_listener s \<Longrightarrow> on_change s = (Inr (), s') \<Longrightarrow> sys_step env y cfg s Change s'"
| do_tick: "timer s \<noteq> None \<Longrightarrow> sweep_tick s = (Inr True, s') \<Longrightarrow> sys_step env y cfg s Tick s'"
| do_check: "worker_thread s = Checking \<Longrightarrow> check_stop s = (Inr (), s') \<Longrightarrow> sys_step env y cfg s Check s'"
| do_consume:
    "worker_thread s = Blocked \<Longrightarrow> worker s = Some c \<Longrightarrow>
     clock_looks looks \<Longrightarrow> wait_get (events s) (push_debounce c) looks = Item ev rest \<Longrightarrow>
     consume env y cfg c (Some ev) rest s = (Inr (), s') \<Longrightarrow> sys_step env y cfg s (Consume ev) s'"
| do_quiet:
    "worker_thread s = Blocked \<Longrightarrow> worker s = Some c \<Longrightarrow>
     clock_looks looks \<Longrightarrow> wait_get (events s) (push_debounce c) looks = Empty \<Longrightarrow>
     consume env y cfg c None (events s) s = (Inr (), s') \<Longrightarrow> sys_step env y cfg s Quiet s'"
| do_crash:
    "worker_thread s = Blocked \<Longrightarrow> worker s = Some c \<Longrightarrow>
     clock_looks looks \<Longrightarrow> wait_get (events s) (push_debounce c) looks = Failed e \<Longrightarrow>
     sys_step env y cfg s Crash (s\<lparr>worker_thread := Ended\<rparr>)"
| do_signal: "signal_shutdown s = (Inr (), s') \<Longrightarrow> sys_step env y cfg s Signal s'"
| do_flush: "worker_stop s \<Longrightarrow> final_flush env s = (Inr (), s') \<Longrightarrow> sys_step env y cfg s Flush s'"

inductive_cases step_cases: "sys_step env y cfg s l s'"

inductive_simps step_simps:
  "sys_step env y cfg s (Write oper ps) s'"
  "sys_step env y cfg s Change s'"
  "sys_step env y cfg s Tick s'"
  "sys_step env y cfg s Check s'"
  "sys_step env y cfg s Signal s'"

text \<open>What the producers put into the queue and what the worker took out.\<close>

fun produced_by :: "label \<Rightarrow> sync_event list" where
  "produced_by (Write oper ps) = [mcp_write oper ps]"
| "produced_by Change = [sync_sweep ''watcher'']"
| "produced_by Tick = [sync_sweep ''timer'']"
| "produced_by _ = []"

fun handled_by :: "label \<Rightarrow> sync_event list" where
  "handled_by (Consume ev) = [ev]"
| "handled_by _ = []"

fun_cases produced_by_one: "produced_by l = [ev]"

definition produced :: "label list \<Rightarrow> sync_event list" where
  "produced ls = concat (map produced_by ls)"

definition handled :: "label list \<Rightarrow> sync_event list" where
  "handled ls = concat (map handled_by ls)"

text \<open>One round of the worker, as the steps use it.\<close>

lemma consume_run:
  assumes "consume env y cfg c answer rest s = (r, s')"
  shows "\<exists>s1. run_iteration env y cfg c answer (s\<lparr>events := rest\<rparr>) = (Inr (), s1) \<and>
     s' = s1\<lparr>worker_thread := Checking\<rparr> \<and> worker_st.more s1 = worker_st.more (s\<lparr>events := rest\<rparr>)"
proof -
  obtain s1 where i: "run_iteration env y cfg c answer (s\<lparr>events := rest\<rparr>) = (Inr (), s1)"
    using run_iteration_never_raises [of env y cfg c answer] by (metis never_raises_def old.unit.exhaust)
  with framesD [OF run_iteration_ext i] assms show ?thesis
    by (simp add: consume_def andthen_def seq_def modify_def)
qed

section \<open>The ledger: what the system promises\<close>

text \<open>
  The abstract machine: a queue, where the worker is, the two stop flags, whether something has still to
  be pushed and whether the worker is degraded. It says nothing about git, files or time. A round
  without an event, and the flush, can only clear the mark of unpushed commits and leave the health alone.
\<close>

record ledger =
  l_queue :: "sync_event list"
  l_thread :: thread
  l_stop :: bool
  l_timer_stop :: bool
  l_pending :: bool
  l_degraded :: bool

definition ledger_of :: "('w, 'z) ext_st_scheme \<Rightarrow> ledger" where
  "ledger_of s =
     \<lparr>l_queue = events s, l_thread = worker_thread s, l_stop = worker_stop s, l_timer_stop = timer_stop s,
      l_pending = unpushed s, l_degraded = degraded s\<rparr>"

inductive ledger_step :: "ledger \<Rightarrow> label \<Rightarrow> ledger \<Rightarrow> bool" where
  l_off: "l_thread a = NotStarted \<Longrightarrow> \<not> l_timer_stop a \<Longrightarrow> ledger_step a Start a"
| l_start:
    "l_thread a = NotStarted \<Longrightarrow> \<not> l_timer_stop a \<Longrightarrow>
     ledger_step a Start (a\<lparr>l_thread := Checking, l_pending := False, l_degraded := False\<rparr>)"
| l_produce:
    "produced_by l = [ev] \<Longrightarrow> (l = Tick \<longrightarrow> \<not> l_timer_stop a) \<Longrightarrow>
     ledger_step a l (a\<lparr>l_queue := l_queue a @ [ev]\<rparr>)"
| l_check:
    "l_thread a = Checking \<Longrightarrow>
     ledger_step a Check (a\<lparr>l_thread := (if l_stop a then Ended else Blocked)\<rparr>)"
| l_consume:
    "l_thread a = Blocked \<Longrightarrow> l_queue a = ev # q \<Longrightarrow>
     ledger_step a (Consume ev) (a\<lparr>l_queue := q, l_thread := Checking, l_pending := p, l_degraded := d\<rparr>)"
| l_quiet:
    "l_thread a = Blocked \<Longrightarrow> l_queue a = [] \<Longrightarrow> (p \<longrightarrow> l_pending a) \<Longrightarrow>
     ledger_step a Quiet (a\<lparr>l_thread := Checking, l_pending := p\<rparr>)"
| l_crash: "l_thread a = Blocked \<Longrightarrow> ledger_step a Crash (a\<lparr>l_thread := Ended\<rparr>)"
| l_signal: "(l_stop a \<longrightarrow> b) \<Longrightarrow> ledger_step a Signal (a\<lparr>l_timer_stop := True, l_stop := b\<rparr>)"
| l_flush: "l_stop a \<Longrightarrow> (p \<longrightarrow> l_pending a) \<Longrightarrow> ledger_step a Flush (a\<lparr>l_pending := p\<rparr>)"

inductive_cases ledger_cases: "ledger_step a l a'"

text \<open>How the parts of a step look in the ledger.\<close>

lemma enqueue_ledger:
  "enqueue ev s = (Inr (), s') \<Longrightarrow> ledger_of s' = (ledger_of s)\<lparr>l_queue := events s @ [ev]\<rparr>"
  by (auto simp: enqueue_def modify_def put_def ledger_of_def degraded_def)

lemma maybe_push_ledger:
  assumes "maybe_push env c s = (r, s')" and "worker_st.more s' = worker_st.more s"
  shows "ledger_of s' = (ledger_of s)\<lparr>l_pending := unpushed s'\<rparr> \<and> (unpushed s' \<longrightarrow> unpushed s)"
  using push_protocol [OF assms(1)] ext_fields [OF assms(2)] by (auto simp: ledger_of_def degraded_def)

lemma consume_ledger:
  assumes "consume env y cfg c answer rest s = (r, s')"
  shows "ledger_of s' = (ledger_of s)\<lparr>l_queue := rest, l_thread := Checking, l_pending := unpushed s',
     l_degraded := degraded s'\<rparr>"
proof -
  obtain s1 where "s' = s1\<lparr>worker_thread := Checking\<rparr>" "worker_st.more s1 = worker_st.more (s\<lparr>events := rest\<rparr>)"
    using consume_run [OF assms] by blast
  then show ?thesis using ext_fields [of s1 "s\<lparr>events := rest\<rparr>"] by (simp add: ledger_of_def degraded_def)
qed

lemma quiet_ledger:
  assumes "consume env y cfg c None rest s = (r, s')"
  shows "(unpushed s' \<longrightarrow> unpushed s) \<and> degraded s' = degraded s"
proof -
  obtain s1 where i: "maybe_push env c (s\<lparr>events := rest\<rparr>) = (Inr (), s1)" and "s' = s1\<lparr>worker_thread := Checking\<rparr>"
    using consume_run [OF assms] by (auto simp: run_iteration_def)
  then show ?thesis using push_protocol [OF i] by (auto simp: degraded_def)
qed

lemma final_flush_ledger:
  assumes "final_flush env s = (Inr (), s')"
  shows "ledger_of s' = (ledger_of s)\<lparr>l_pending := unpushed s'\<rparr> \<and> (unpushed s' \<longrightarrow> unpushed s)"
proof (cases "worker s")
  case None
  with assms show ?thesis by (auto simp: final_flush_def seq_def gets_def ledger_of_def)
next
  case (Some c)
  with assms have run: "maybe_push env c s = (Inr (), s')" by (simp add: final_flush_def seq_def gets_def)
  show ?thesis by (rule maybe_push_ledger [OF run framesD [OF maybe_push_ext run]])
qed

lemma signal_ledger:
  assumes "signal_shutdown s = (Inr (), s')"
  shows "ledger_of s' = (ledger_of s)\<lparr>l_timer_stop := True, l_stop := (worker s \<noteq> None \<or> worker_stop s)\<rparr>"
  using assms
  by (cases "worker s")
     (auto simp: signal_shutdown_def andthen_def seq_def modify_def gets_def ret_def ledger_of_def degraded_def)

lemma ledger_fields [simp]:
  "l_queue (ledger_of s) = events s" "l_thread (ledger_of s) = worker_thread s"
  "l_stop (ledger_of s) = worker_stop s" "l_timer_stop (ledger_of s) = timer_stop s"
  "l_pending (ledger_of s) = unpushed s" "l_degraded (ledger_of s) = degraded s"
  by (simp_all add: ledger_of_def)

lemma enqueue_refines:
  assumes "enqueue ev s = (Inr (), s')" and "produced_by l = [ev]" and "l = Tick \<longrightarrow> \<not> timer_stop s"
  shows "ledger_step (ledger_of s) l (ledger_of s')"
  using assms l_produce [of l ev "ledger_of s"] by (simp add: enqueue_ledger)

lemma sweep_tick_enqueues:
  "sweep_tick s = (Inr True, s') \<Longrightarrow> enqueue (sync_sweep ''timer'') s = (Inr (), s') \<and> \<not> timer_stop s"
  by (auto simp: sweep_tick_def seq_def gets_def andthen_def enqueue_def modify_def ret_def split: if_splits)

lemma start_refines:
  assumes "worker_thread s = NotStarted" and "\<not> timer_stop s" and "after_indexes_start env cfg s = (Inr (), s')"
  shows "ledger_step (ledger_of s) Start (ledger_of s')"
  using assms(3)
proof (cases rule: start_cases)
  case off
  with assms show ?thesis using l_off [of "ledger_of s"] by simp
next
  case (on c n s1 s2)
  have "ledger_of s' = (ledger_of s)\<lparr>l_thread := Checking, l_pending := False, l_degraded := False\<rparr>"
    using start_on_fields [OF on(7,8,4,5,9)] by (simp add: ledger_of_def degraded_def)
  with assms show ?thesis using l_start [of "ledger_of s"] by simp
qed

lemma quiet_refines:
  assumes "worker_thread s = Blocked" and "events s = []" and "consume env y cfg c None (events s) s = (Inr (), s')"
  shows "ledger_step (ledger_of s) Quiet (ledger_of s')"
proof -
  have "ledger_of s' = (ledger_of s)\<lparr>l_thread := Checking, l_pending := unpushed s'\<rparr>"
    using consume_ledger [OF assms(3)] quiet_ledger [OF assms(3)] by (simp add: ledger_of_def)
  with assms quiet_ledger [OF assms(3)] show ?thesis using l_quiet [of "ledger_of s" "unpushed s'"] by simp
qed

lemma step_refines:
  assumes "sys_step env y cfg s l s'"
  shows "ledger_step (ledger_of s) l (ledger_of s')"
  using assms
proof cases
  case do_start
  then show ?thesis using start_refines by blast
next
  case (do_write oper ps)
  then show ?thesis by (intro enqueue_refines [of "mcp_write oper ps"]) (simp_all add: on_write_def)
next
  case do_change
  then show ?thesis by (intro enqueue_refines [of "sync_sweep ''watcher''"]) (simp_all add: on_change_def)
next
  case do_tick
  with sweep_tick_enqueues show ?thesis by (intro enqueue_refines [of "sync_sweep ''timer''"]) auto
next
  case do_check
  then have "ledger_of s' = (ledger_of s)\<lparr>l_thread := (if worker_stop s then Ended else Blocked)\<rparr>"
    by (auto simp: check_stop_def modify_def ledger_of_def degraded_def)
  with do_check show ?thesis using l_check [of "ledger_of s"] by simp
next
  case (do_consume c looks ev rest)
  with wait_get_Item [OF do_consume(5)] show ?thesis
    using l_consume [of "ledger_of s" ev rest] by (simp add: consume_ledger)
next
  case (do_quiet c looks)
  then show ?thesis using quiet_refines wait_get_Empty by blast
next
  case (do_crash c looks e)
  then have "ledger_of s' = (ledger_of s)\<lparr>l_thread := Ended\<rparr>" by (simp add: ledger_of_def degraded_def)
  with do_crash show ?thesis using l_crash [of "ledger_of s"] by simp
next
  case do_signal
  with signal_ledger [of s s'] show ?thesis using l_signal [of "ledger_of s"] by simp
next
  case do_flush
  with final_flush_ledger [of env s s'] show ?thesis using l_flush [of "ledger_of s" "unpushed s'"] by simp
qed

interpretation ledger: simulation "sys_step env y cfg" ledger_step ledger_of for env y cfg
  by unfold_locales (rule step_refines)

section \<open>What the ledger can never do\<close>

lemma ledger_fifo:
  "runs ledger_step a ls a' \<Longrightarrow> l_queue a @ produced ls = handled ls @ l_queue a'"
proof (induction rule: runs.induct)
  case (runs_step s ls s1 l s2)
  from runs_step.hyps(2) have "l_queue s1 @ produced_by l = handled_by l @ l_queue s2"
    by (cases rule: ledger_cases) (auto elim: produced_by_one)
  moreover have "l_queue s @ produced (ls @ [l]) = (l_queue s @ produced ls) @ produced_by l"
    by (simp add: produced_def)
  ultimately show ?case by (simp add: runs_step.IH handled_def)
qed (simp add: produced_def handled_def)

text \<open>How many more steps of its own a worker can make that was told to stop.\<close>

fun rank :: "thread \<Rightarrow> nat" where
  "rank Blocked = 2"
| "rank Checking = 1"
| "rank Ended = 0"
| "rank NotStarted = 0"

fun worker_label :: "label \<Rightarrow> bool" where
  "worker_label Check = True"
| "worker_label (Consume ev) = True"
| "worker_label Quiet = True"
| "worker_label Crash = True"
| "worker_label _ = False"

definition rounds :: "label list \<Rightarrow> nat" where
  "rounds ls = length (filter worker_label ls)"

lemma ledger_stop_mono: "ledger_step a l a' \<Longrightarrow> l_stop a \<Longrightarrow> l_stop a'"
  by (erule ledger_cases) auto

lemma ledger_rank:
  "ledger_step a l a' \<Longrightarrow> l_stop a \<Longrightarrow> l_timer_stop a \<Longrightarrow> rank (l_thread a') + (if worker_label l then 1 else 0) \<le> rank (l_thread a)"
  by (erule ledger_cases) (auto elim: produced_by_one)

lemma ledger_timer_mono: "ledger_step a l a' \<Longrightarrow> l_timer_stop a \<Longrightarrow> l_timer_stop a' \<and> l \<noteq> Tick \<and> l \<noteq> Start"
  by (erule ledger_cases) auto

text \<open>Once both flags are set they stay set, and the timer and the start are over.\<close>

lemma ledger_stopped:
  "runs ledger_step a ls a' \<Longrightarrow> l_stop a \<Longrightarrow> l_timer_stop a \<Longrightarrow>
   l_stop a' \<and> l_timer_stop a' \<and> Tick \<notin> set ls \<and> Start \<notin> set ls"
  by (induction rule: runs.induct) (auto dest: ledger_timer_mono ledger_stop_mono)

lemma ledger_rounds:
  "runs ledger_step a ls a' \<Longrightarrow> l_stop a \<Longrightarrow> l_timer_stop a \<Longrightarrow>
   rank (l_thread a') + rounds ls \<le> rank (l_thread a)"
proof (induction rule: runs.induct)
  case (runs_step s ls s1 l s2)
  then have "l_stop s1" "l_timer_stop s1" using ledger_stopped by blast+
  with ledger_rank [OF runs_step.hyps(2)] runs_step.IH [OF runs_step.prems] show ?case
    by (auto simp: rounds_def split: if_splits)
qed (simp add: rounds_def)

text \<open>After a stop request at most one more event is handled.\<close>

fun may_handle :: "thread \<Rightarrow> nat" where
  "may_handle Blocked = 1"
| "may_handle _ = 0"

lemma ledger_may_handle:
  "ledger_step a l a' \<Longrightarrow> l_stop a \<Longrightarrow> length (handled_by l) + may_handle (l_thread a') \<le> may_handle (l_thread a)"
  by (erule ledger_cases) (auto elim: produced_by_one)

lemma ledger_handled:
  "runs ledger_step a ls a' \<Longrightarrow> l_stop a \<Longrightarrow> l_timer_stop a \<Longrightarrow>
   length (handled ls) + may_handle (l_thread a') \<le> may_handle (l_thread a)"
proof (induction rule: runs.induct)
  case (runs_step s ls s1 l s2)
  have "l_stop s1" using ledger_stopped [OF runs_step.hyps(1)] runs_step.prems by simp
  with ledger_may_handle [OF runs_step.hyps(2)] runs_step.IH [OF runs_step.prems] show ?case
    by (simp add: handled_def)
qed (simp add: handled_def)

section \<open>Properties\<close>

text \<open>
  C11: The running system refines the ledger. Whatever the interleaving of listeners, timer, worker and
  shutdown, and whatever git does, every run of the detailed system is, step for step, a run of the abstract
  machine over the queue, the worker's phase, the stop flags, the mark of unpushed commits and the
  health of the worker.
\<close>

theorem system_refines_ledger:
  assumes "runs (sys_step env y cfg) s ls s'"
  shows "runs ledger_step (ledger_of s) ls (ledger_of s')"
  using assms by (rule ledger.runs_simulate)

text \<open>
  C15: No event is lost, doubled or reordered. At every moment of every run, the events that waited at the
  start followed by all that the listeners and the timer have produced are exactly the events that the worker
  has taken, followed by the ones that still wait.
\<close>

theorem events_in_order:
  assumes "runs (sys_step env y cfg) s ls s'"
  shows "events s @ produced ls = handled ls @ events s'"
  using ledger_fifo [OF ledger.runs_simulate [OF assms]] by simp

text \<open>
  C17: Shutdown ends. Once the stop flags are set, the timer enqueues nothing any more, the worker
  makes at most two more steps of its own and handles at most one more event, the one it was
  waiting for; a worker that has ended stays so.
\<close>

theorem shutdown_ends:
  assumes "runs (sys_step env y cfg) s ls s'" and "worker_stop s" and "timer_stop s"
  shows "Tick \<notin> set ls \<and> rounds ls + rank (worker_thread s') \<le> rank (worker_thread s) \<and>
    length (handled ls) \<le> 1"
proof -
  note run = ledger.runs_simulate [OF assms(1)]
  have "length (handled ls) \<le> may_handle (worker_thread s)" using ledger_handled [OF run] assms(2,3) by simp
  also have "\<dots> \<le> 1" by (cases "worker_thread s") auto
  finally show ?thesis
    using ledger_stopped [OF run] ledger_rounds [OF run] assms(2,3) by simp
qed

end
