(* ===== verification/SystemInv.thy ===== *)
theory SystemInv
  imports SystemModel
begin

text \<open>
  The life of the extension from the launch on: the invariant of the running system, kept by every
  step, and what validation, the enable flag and the start promise to it.
\<close>

section \<open>Launch\<close>

text \<open>What the server runs before the index watches the vault; the steps of the system come after it.\<close>

definition launch :: "'w env \<Rightarrow> settings \<Rightarrow> ('w, 'z, unit) ext_prog" where
  "launch env cfg = andthen (new_extension cfg) (before_indexes_start env cfg)"

text \<open>Effects that neither commit nor push.\<close>

definition harmless :: "effect \<Rightarrow> bool" where
  "harmless e \<longleftrightarrow> list_all (\<lambda>x. fst x \<noteq> ''commit'' \<and> fst x \<noteq> ''push'') (outcome e)"

lemma harmless_simps [simp]:
  "harmless (ELog l m)" "harmless (EUnlink p)"
  "harmless (EGit argv r) \<longleftrightarrow> subcommand argv \<noteq> ''commit'' \<and> subcommand argv \<noteq> ''push''"
  by (simp_all add: harmless_def outcome_def)

lemma harmless_owes: "list_all harmless es \<Longrightarrow> foldl owes_step b (cmds es) = b"
proof (induction es)
  case (Cons e es)
  then show ?case
    by (cases e) (auto simp: cmds_def outcomes_def outcome_def owes_step_def harmless_def)
qed simp

lemma harmless_run:
  assumes "grows harmless m" and "m s = (r, s')"
  shows "owes (cmds (trace s')) \<longleftrightarrow> owes (cmds (trace s))"
proof -
  have "trace s' = trace s @ new_effects s s'" "list_all harmless (new_effects s s')"
    using grows_new [OF assms] by simp_all
  then show ?thesis by (metis cmds_append owes_append harmless_owes)
qed

lemma skip_cfg_identity [simp]: "skip_conf (cfg_identity_args cfg @ rest) = skip_conf rest"
  by (auto simp: cfg_identity_args_def split: option.split)

lemma grows_run_process: "(\<And>r. P (EGit argv r)) \<Longrightarrow> grows P (run_process env argv)"
  by (auto simp: grows_def run_process_def split: prod.split)

lemma validate_harmless: "grows harmless (validate_gitsync env cfg)"
  unfolding validate_gitsync_def check_vault_def check_remote_def get_url_argv_def check_identity_def ident_argv_def Let_def
  by (auto intro!: grow_intros grows_run_process simp: subcommand_def numeral_3_eq_3)

lemma startup_sweep_harmless: "grows harmless (startup_sweep env c)"
proof -
  have "grows harmless (git_dir env (git c))"
    unfolding git_dir_def Let_def
    by (intro grow_intros) (auto split: option.split intro!: grow_intros grows_run_gitI simp: subcommand_def)
  moreover have "grows harmless (sweep_lock env running l)" for running l
    by (rule grows_mono [OF sweep_lock_grows]) (auto simp: sweep_effect_def)
  moreover have "grows harmless (find_locks env d)" for d
    by (rule grows_mono [OF find_locks_silent]) simp
  moreover have "grows harmless (git_running env)"
    by (rule grows_mono [OF git_running_silent]) simp
  ultimately show ?thesis
    unfolding startup_sweep_def sweep_def
    by (auto intro!: grow_intros simp: except_any_def)
qed

section \<open>The invariant\<close>

text \<open>What is attached and running is decided by the enable flag and the configuration.\<close>

definition lifecycle_ok :: "settings \<Rightarrow> ('w, 'z) ext_st_scheme \<Rightarrow> bool" where
  "lifecycle_ok cfg s \<longleftrightarrow>
     (enabled s \<longleftrightarrow> is_enabled cfg) \<and>
     (\<not> is_enabled cfg \<longrightarrow> \<not> write_listener s \<and> \<not> change_listener s \<and> timer s = None \<and> worker s = None) \<and>
     (worker s = None \<longleftrightarrow> worker_thread s = NotStarted) \<and>
     (worker_stop s \<longrightarrow> worker_thread s \<noteq> NotStarted \<and> timer_stop s) \<and>
     (\<forall>c. worker s = Some c \<longrightarrow> from_config cfg = Some c)"

text \<open>The bookkeeping of commits, from before the worker exists.\<close>

definition books_ok :: "('w, 'z) ext_st_scheme \<Rightarrow> bool" where
  "books_ok s \<longleftrightarrow> (worker_thread s = NotStarted \<longrightarrow> \<not> owes (cmds (trace s))) \<and> remembers s"

definition sys_ok :: "settings \<Rightarrow> ('w, 'z) ext_st_scheme \<Rightarrow> bool" where
  "sys_ok cfg s \<longleftrightarrow> lifecycle_ok cfg s \<and> books_ok s \<and> list_all wf_event (events s)"

lemma sys_okI:
  "lifecycle_ok cfg s \<Longrightarrow> books_ok s \<Longrightarrow> list_all wf_event (events s) \<Longrightarrow> sys_ok cfg s"
  by (simp add: sys_ok_def)

text \<open>What only changes a field the parts do not look at, or looks at together.\<close>

lemma parts_events [simp]:
  "lifecycle_ok cfg (s\<lparr>events := q\<rparr>) \<longleftrightarrow> lifecycle_ok cfg s" "books_ok (s\<lparr>events := q\<rparr>) \<longleftrightarrow> books_ok s"
  by (simp_all add: lifecycle_ok_def books_ok_def remembers_def)

lemma parts_thread:
  "worker_thread s \<noteq> NotStarted \<Longrightarrow> t \<noteq> NotStarted \<Longrightarrow> lifecycle_ok cfg s \<Longrightarrow> lifecycle_ok cfg (s\<lparr>worker_thread := t\<rparr>)"
  "t \<noteq> NotStarted \<Longrightarrow> books_ok s \<Longrightarrow> books_ok (s\<lparr>worker_thread := t\<rparr>)"
  by (simp_all add: lifecycle_ok_def books_ok_def remembers_def)

lemma parts_stop:
  "lifecycle_ok cfg s \<Longrightarrow> lifecycle_ok cfg (s\<lparr>timer_stop := True\<rparr>)"
  "lifecycle_ok cfg s \<Longrightarrow> worker s = Some c \<Longrightarrow> lifecycle_ok cfg (s\<lparr>timer_stop := True, worker_stop := True\<rparr>)"
  "books_ok (s\<lparr>timer_stop := True\<rparr>) \<longleftrightarrow> books_ok s"
  "books_ok (s\<lparr>timer_stop := True, worker_stop := True\<rparr>) \<longleftrightarrow> books_ok s"
  by (auto simp: lifecycle_ok_def books_ok_def remembers_def)

lemma enqueue_ok:
  assumes "sys_ok cfg s" and "wf_event ev" and "enqueue ev s = (Inr (), s')"
  shows "sys_ok cfg s'"
  using assms by (auto simp: enqueue_def modify_def put_def sys_ok_def)

lemma round_lifecycle:
  assumes "lifecycle_ok cfg s" and "worker s \<noteq> None" and "worker_st.more s1 = worker_st.more (s\<lparr>events := q\<rparr>)"
    and "t \<noteq> NotStarted"
  shows "lifecycle_ok cfg (s1\<lparr>worker_thread := t\<rparr>)"
  using assms(1,2,4) ext_fields [OF assms(3)] by (simp add: lifecycle_ok_def)

lemma consume_ok:
  assumes ok: "sys_ok cfg s" and w: "worker s = Some c" "worker_thread s = Blocked"
    and q: "list_all wf_event q" and run: "consume env y cfg c answer q s = (Inr (), s')"
  shows "sys_ok cfg s'"
proof -
  obtain s1 where i: "run_iteration env y cfg c answer (s\<lparr>events := q\<rparr>) = (Inr (), s1)"
    and s': "s' = s1\<lparr>worker_thread := Checking\<rparr>" and m: "worker_st.more s1 = worker_st.more (s\<lparr>events := q\<rparr>)"
    using consume_run [OF run] by blast
  have "remembers (s\<lparr>events := q\<rparr>)" using ok by (simp add: sys_ok_def books_ok_def remembers_def)
  from run_iteration_remembers [OF this, of env y cfg c answer] i have "remembers s1" by simp
  then have "books_ok s'" by (simp add: s' books_ok_def remembers_def)
  moreover have "lifecycle_ok cfg s'"
    using ok w m unfolding s' by (intro round_lifecycle) (auto simp: sys_ok_def)
  moreover have "list_all wf_event (events s')" using ext_fields(2) [OF m] q by (simp add: s')
  ultimately show ?thesis by (intro sys_okI)
qed

lemma start_ok:
  assumes ok: "sys_ok cfg s" and "worker_thread s = NotStarted" and "\<not> timer_stop s"
    and run: "after_indexes_start env cfg s = (Inr (), s')"
  shows "sys_ok cfg s'"
  using run
proof (cases rule: start_cases)
  case off
  with ok show ?thesis by simp
next
  case (on c n s1 s2)
  note f = start_on_fields [OF on(7,8,4,5,9)]
  have "owes (cmds (trace s2)) \<longleftrightarrow> owes (cmds (trace s))"
    using harmless_run [OF startup_sweep_harmless on(8)] on(6) by simp
  then have "books_ok s'" using ok assms(2) on(9) by (simp add: sys_ok_def books_ok_def remembers_def)
  moreover have "lifecycle_ok cfg s'" using ok assms(2) on(1,2) by (simp add: sys_ok_def lifecycle_ok_def f)
  moreover have "list_all wf_event (events s')" using ok by (simp add: f sys_ok_def)
  ultimately show ?thesis by (intro sys_okI)
qed

lemma flush_ok:
  assumes ok: "sys_ok cfg s" and run: "final_flush env s = (Inr (), s')"
  shows "sys_ok cfg s'"
proof (cases "worker s")
  case None
  with ok run show ?thesis by (simp add: final_flush_def seq_def gets_def)
next
  case (Some c)
  with run have p: "maybe_push env c s = (Inr (), s')" by (simp add: final_flush_def seq_def gets_def)
  note f = ext_fields [OF framesD [OF maybe_push_ext p]]
  have "remembers s'" using maybe_push_remembers [of s env c] ok p by (simp add: sys_ok_def books_ok_def)
  moreover have "worker_thread s' \<noteq> NotStarted" using ok Some by (auto simp: f sys_ok_def lifecycle_ok_def)
  moreover have "lifecycle_ok cfg s'" using ok by (simp add: sys_ok_def lifecycle_ok_def f)
  ultimately show ?thesis using ok by (simp add: sys_ok_def books_ok_def f)
qed

lemma step_keeps_ok:
  assumes ok: "sys_ok cfg s" and "sys_step env y cfg s l s'"
  shows "sys_ok cfg s'"
  using assms(2)
proof cases
  case do_start
  show ?thesis by (rule start_ok [OF ok do_start(2-4)])
next
  case (do_write oper ps)
  then have "enqueue (mcp_write oper ps) s = (Inr (), s')" by (simp add: on_write_def)
  then show ?thesis by (rule enqueue_ok [OF ok wf_mcp_write])
next
  case do_change
  then have "enqueue (sync_sweep ''watcher'') s = (Inr (), s')" by (simp add: on_change_def)
  then show ?thesis by (rule enqueue_ok [OF ok wf_sync_sweep])
next
  case do_tick
  then have "enqueue (sync_sweep ''timer'') s = (Inr (), s')"
    by (auto simp: sweep_tick_def seq_def gets_def andthen_def enqueue_def modify_def ret_def split: if_splits)
  then show ?thesis by (rule enqueue_ok [OF ok wf_sync_sweep])
next
  case do_check
  with ok show ?thesis by (auto simp: check_stop_def modify_def sys_ok_def intro!: parts_thread split: if_splits)
next
  case (do_consume c looks ev rest)
  with ok wait_get_Item [OF do_consume(5)] show ?thesis
    by (intro consume_ok [OF ok do_consume(3,2) _ do_consume(6)]) (simp add: sys_ok_def)
next
  case (do_quiet c looks)
  with ok show ?thesis
    by (intro consume_ok [OF ok do_quiet(3,2) _ do_quiet(6)]) (simp add: sys_ok_def)
next
  case (do_crash c looks e)
  with ok show ?thesis by (auto simp: sys_ok_def intro!: parts_thread)
next
  case do_signal
  with ok show ?thesis
    by (cases "worker s")
       (auto simp: signal_shutdown_def andthen_def seq_def modify_def gets_def ret_def sys_ok_def parts_stop)
next
  case do_flush
  show ?thesis by (rule flush_ok [OF ok do_flush(3)])
qed

interpretation system: step_invariant "sys_step env y cfg" "sys_ok cfg" for env y cfg
  by unfold_locales (rule step_keeps_ok)

section \<open>What the launch leaves behind\<close>

lemma frames_io_more [frame_intros]:
  "frames io.more (sys f)" "frames io.more (sys_try g)" "frames io.more (emit e)"
  by (auto intro: frames_sysI frames_sys_tryI frames_emitI)

lemma frames_io_process [frame_intros]: "frames io.more (run_process env argv)"
  by (auto simp: frames_def run_process_def split: prod.split)

lemma validate_frame: "frames io.more (validate_gitsync env cfg)"
  unfolding validate_gitsync_def check_vault_def check_remote_def get_url_argv_def check_identity_def ident_argv_def Let_def
  by (auto intro!: frame_intros)

text \<open>The extension object as it is before validation, in the state \<open>s0\<close> of the process.\<close>

definition fresh :: "settings \<Rightarrow> ('w, 'z) ext_st_scheme \<Rightarrow> ('w, 'z) ext_st_scheme" where
  "fresh cfg s = s\<lparr>enabled := is_enabled cfg, events := [], timer_stop := False, timer := None,
     worker := None, worker_stop := False, worker_thread := NotStarted,
     write_listener := False, change_listener := False\<rparr>"

lemma io_fields:
  assumes "io.more s' = io.more s"
  shows "git_st.more s' = git_st.more s" "worker_st.more s' = worker_st.more s"
  using assms by (cases s; cases s'; simp)+

lemma launch_cases:
  assumes "launch env cfg s0 = (r, s)"
  obtains (off) "\<not> is_enabled cfg" "r = Inr ()"
      "s = (fresh cfg s0)\<lparr>trace := trace s0 @ [ELog Info MExtDisabled]\<rparr>"
  | (on) s1 where "is_enabled cfg" "validate_gitsync env cfg (fresh cfg s0) = (Inr (), s1)" "r = Inr ()"
      "s = s1\<lparr>write_listener := True, change_listener := True, trace := trace s1 @ [ELog Info MExtEnabled]\<rparr>"
  | (refused) e where "is_enabled cfg" "validate_gitsync env cfg (fresh cfg s0) = (Inl e, s)" "r = Inl e"
proof -
  have new: "new_extension cfg s0 = (Inr (), fresh cfg s0)"
    by (simp add: new_extension_def modify_def fresh_def new_queue_def)
  have flag: "enabled (fresh cfg s0) = is_enabled cfg" by (simp add: fresh_def)
  show thesis
  proof (cases "is_enabled cfg")
    case False
    with assms flag new show thesis
      by (intro off) (auto simp: launch_def before_indexes_start_def andthen_def seq_def gets_def emit_def fresh_def)
  next
    case True
    obtain q s1 where v: "validate_gitsync env cfg (fresh cfg s0) = (q, s1)"
      by (cases "validate_gitsync env cfg (fresh cfg s0)")
    have "launch env cfg s0 = andthen (validate_gitsync env cfg)
        (andthen (modify (\<lambda>s. s\<lparr>write_listener := True\<rparr>))
          (andthen (modify (\<lambda>s. s\<lparr>change_listener := True\<rparr>)) (log Info MExtEnabled))) (fresh cfg s0)"
      using True flag new by (simp add: launch_def before_indexes_start_def andthen_def seq_def gets_def)
    with assms v True show thesis
      by (cases q) (auto simp: andthen_def seq_def modify_def emit_def intro: on refused)
  qed
qed

lemma fresh_ok:
  assumes "\<not> owes (cmds (trace s))" and "io.more s = io.more (fresh cfg s0)"
  shows "lifecycle_ok cfg s" and "books_ok s" and "events s = []" and "worker_thread s = NotStarted"
    and "\<not> write_listener s" and "\<not> change_listener s" and "worker s = None" and "enabled s = is_enabled cfg"
    and "\<not> timer_stop s" and "timer s = None" and "\<not> worker_stop s"
proof -
  note f = ext_fields [OF io_fields(2) [OF assms(2)], unfolded fresh_def, simplified]
  from f assms(1) show "lifecycle_ok cfg s" and "books_ok s" and "events s = []" and "worker_thread s = NotStarted"
    and "\<not> write_listener s" and "\<not> change_listener s" and "worker s = None" and "enabled s = is_enabled cfg"
    and "\<not> timer_stop s" and "timer s = None" and "\<not> worker_stop s"
    by (simp_all add: lifecycle_ok_def books_ok_def remembers_def)
qed

lemma launched_fields:
  assumes "launch env cfg s0 = (Inr (), s)"
  shows "events s = []" and "worker_thread s = NotStarted" and "worker s = None" and "\<not> timer_stop s"
    and "\<not> worker_stop s" and "enabled s = is_enabled cfg" and "timer s = None"
    and "write_listener s = is_enabled cfg" and "change_listener s = is_enabled cfg"
proof -
  have "events s = [] \<and> worker_thread s = NotStarted \<and> worker s = None \<and> \<not> timer_stop s \<and> \<not> worker_stop s \<and>
      enabled s = is_enabled cfg \<and> timer s = None \<and> write_listener s = is_enabled cfg \<and>
      change_listener s = is_enabled cfg"
    using assms
  proof (cases rule: launch_cases)
    case off
    then show ?thesis by (simp add: fresh_def)
  next
    case (on s1)
    note f = ext_fields [OF io_fields(2) [OF framesD [OF validate_frame on(2)]], unfolded fresh_def, simplified]
    from on(1,4) show ?thesis by (simp add: f)
  qed simp
  then show "events s = []" and "worker_thread s = NotStarted" and "worker s = None" and "\<not> timer_stop s"
    and "\<not> worker_stop s" and "enabled s = is_enabled cfg" and "timer s = None"
    and "write_listener s = is_enabled cfg" and "change_listener s = is_enabled cfg"
    by simp_all
qed

lemma launch_ok:
  assumes "launch env cfg s0 = (Inr (), s)" and "trace s0 = []"
  shows "sys_ok cfg s"
  using assms(1)
proof (cases rule: launch_cases)
  case off
  then have "trace s = [ELog Info MExtDisabled]" "io.more s = io.more (fresh cfg s0)" using assms(2) by simp_all
  moreover from this(1) have "\<not> owes (cmds (trace s))" by (simp add: cmds_def owes_def)
  ultimately show ?thesis using fresh_ok [of s cfg s0] by (simp add: sys_ok_def)
next
  case (on s1)
  have "\<not> owes (cmds (trace s1))"
    using harmless_run [OF validate_harmless on(2)] assms(2) by (simp add: fresh_def owes_def)
  note f = fresh_ok [OF this framesD [OF validate_frame on(2)]]
  have "cmds (trace s) = cmds (trace s1)" using on(4) by (simp add: cmds_def)
  with f on(1,4) show ?thesis
    by (simp add: sys_ok_def lifecycle_ok_def books_ok_def remembers_def)
qed simp

lemma launched_runs_ok:
  assumes "launch env cfg s0 = (Inr (), s)" and "trace s0 = []" and "runs (sys_step env y cfg) s ls s'"
  shows "sys_ok cfg s'"
  by (rule system.runs_keep [OF assms(3) launch_ok [OF assms(1,2)]])

lemma launched_accepted:
  assumes "is_enabled cfg" and "launch env cfg s0 = (Inr (), s)"
  shows "accepted cfg"
  using assms(2)
proof (cases rule: launch_cases)
  case (on s1)
  from validate_enabled_returned [OF on(2,1)] show ?thesis by blast
qed (use assms(1) in simp_all)

section \<open>What can go wrong\<close>

lemma start_returns:
  fixes s :: "('w, 'z) ext_st_scheme"
  assumes "enabled s" and "from_config cfg = Some c" and "sweep_interval cfg = Some n"
  shows "\<exists>s'. after_indexes_start env cfg s = (Inr (), s')"
proof -
  have new: "never_raises (new_worker env :: ('w, 'z, unit) ext_prog)"
    by (simp add: new_worker_def never_raises_andthen never_raises_seq)
  let ?p = "andthen (new_worker env)
     (andthen (modify (\<lambda>s. s\<lparr>worker := Some c, git_dir_cache := None\<rparr>))
     (andthen (startup_sweep env c)
     (andthen start_worker (modify (\<lambda>s. s\<lparr>timer := Some n\<rparr>))))) :: ('w, 'z, unit) ext_prog"
  have "never_raises ?p"
    unfolding start_worker_def
    by (intro never_raises_andthen new startup_sweep_never_raises never_raises_modify)
  then obtain x t where "?p s = (Inr x, t)" by (rule never_raisesE)
  moreover have "after_indexes_start env cfg s = ?p s"
    using assms by (simp add: after_indexes_start_def worker_from_config_def seq_def gets_def)
  ultimately show ?thesis by simp
qed

text \<open>A git process that ends raises nothing, so all that is left are the checks themselves.\<close>

lemma run_process_answers: "git_answers env \<Longrightarrow> never_raises (run_process env argv)"
  unfolding git_answers_def never_raises_def run_process_def by (metis (no_types, lifting) case_prod_conv)

lemma check_timing_ValueError: "check_timing xs = Inl e \<Longrightarrow> \<exists>m. e = ValueError m"
  by (induction xs rule: check_timing.induct) (auto split: option.splits if_splits)

text \<open>\<open>complains m\<close>: all that \<open>m\<close> can raise is a \<open>ValueError\<close>.\<close>

definition complains :: "('s, 'a) prog \<Rightarrow> bool" where
  "complains m \<longleftrightarrow> (\<forall>s e s'. m s = (Inl e, s') \<longrightarrow> (\<exists>m. e = ValueError m))"

lemma complains_basic: "complains (ret x)" "complains (throw (ValueError m))" "complains (sys f)"
  by (auto simp: complains_def sys_def split: prod.splits)

lemma complains_soft: "never_raises m \<Longrightarrow> complains m"
  unfolding complains_def never_raises_def by (metis Inl_Inr_False prod.inject)

lemma complains_of_sum: "(\<And>e. r = Inl e \<Longrightarrow> \<exists>m. e = ValueError m) \<Longrightarrow> complains (of_sum r)"
  by (simp add: complains_def)

lemma complains_seq: "complains m \<Longrightarrow> (\<And>x. complains (f x)) \<Longrightarrow> complains (seq m f)"
  unfolding complains_def by (auto simp: seq_eq_Inl) blast+

lemma complains_andthen: "complains m \<Longrightarrow> complains m' \<Longrightarrow> complains (andthen m m')"
  by (simp add: andthen_def complains_seq)

lemma complains_if: "complains m \<Longrightarrow> complains m' \<Longrightarrow> complains (if b then m else m')"
  by simp

lemmas complains_intros =
  complains_basic complains_of_sum complains_seq complains_andthen complains_if

lemma check_interval_ValueError: "check_interval cfg = Inl e \<Longrightarrow> \<exists>m. e = ValueError m"
  by (auto simp: check_interval_def split: option.splits if_splits)

lemma check_heartbeat_ValueError: "check_heartbeat cfg = Inl e \<Longrightarrow> \<exists>m. e = ValueError m"
  by (auto simp: check_heartbeat_def Let_def split: if_splits sum.splits)

lemma validate_raises_ValueError:
  assumes "git_answers env" and "validate_gitsync env cfg s = (Inl e, s')"
  shows "\<exists>m. e = ValueError m"
proof -
  note process = complains_soft [OF run_process_answers [OF assms(1)]]
  have "complains (check_vault env cfg)"
    unfolding check_vault_def by (intro complains_intros)
  moreover have "complains (check_remote env cfg)"
    unfolding check_remote_def Let_def
    by (auto intro!: complains_intros process dest: urlsplit_ValueError)
  moreover have "complains (check_identity env cfg)"
    unfolding check_identity_def by (auto intro!: complains_intros process)
  ultimately have "complains (validate_gitsync env cfg)"
    unfolding validate_gitsync_def
    by (intro complains_intros)
       (blast dest: check_interval_ValueError check_timing_ValueError check_heartbeat_ValueError)+
  with assms(2) show ?thesis unfolding complains_def by blast
qed

section \<open>Properties\<close>

text \<open>
  C1: Commits are never forgotten by the running system. From a fresh process, through launch, start,
  any interleaving of listeners, timer, worker rounds and shutdown, and whatever git does: if some
  commit succeeded since the last push that succeeded, the worker exists, it is the one the
  configuration describes, and its mark of unpushed commits is set.
\<close>

theorem system_keeps_commits:
  assumes "launch env cfg s0 = (Inr (), s)" and "trace s0 = []"
    and "runs (sys_step env y cfg) s ls s'" and "owes (cmds (trace s'))"
  shows "unpushed s' \<and> worker s' \<noteq> None \<and> worker s' = from_config cfg"
  using launched_runs_ok [OF assms(1-3)] assms(4)
  by (auto simp: sys_ok_def lifecycle_ok_def books_ok_def remembers_def)

text \<open>
  C34: Every event has one of the two shapes. In every run from a queue of well-formed events, each event
  that the worker takes and each that still waits is a write with an operation and no trigger, or a
  sweep with a trigger, no operation and no paths, so the handler always knows its kind.
\<close>

theorem events_well_formed:
  assumes "list_all wf_event (events s)" and "runs (sys_step env y cfg) s ls s'"
  shows "list_all wf_event (handled ls @ events s')"
proof -
  have "list_all wf_event (produced_by l)" for l by (cases l) auto
  then have "list_all wf_event (produced ls)" by (induction ls) (auto simp: produced_def)
  with assms(1) have "list_all wf_event (events s @ produced ls)" by simp
  also have "events s @ produced ls = handled ls @ events s'"
    using ledger_fifo [OF ledger.runs_simulate [OF assms(2)]] by simp
  finally show ?thesis .
qed

text \<open>The disabled extension: it can be started and told to stop, and nothing else.\<close>

definition inert :: "effect list \<Rightarrow> 'w \<Rightarrow> ('w, 'z) ext_st_scheme \<Rightarrow> bool" where
  "inert t w s \<longleftrightarrow> trace s = t \<and> world s = w \<and> events s = [] \<and> \<not> enabled s \<and> \<not> write_listener s \<and>
     \<not> change_listener s \<and> timer s = None \<and> worker s = None \<and> worker_thread s = NotStarted \<and> \<not> worker_stop s"

lemma inert_step: "inert t w s \<Longrightarrow> sys_step env y cfg s l s' \<Longrightarrow> inert t w s' \<and> l \<in> {Start, Signal}"
  by (erule step_cases)
     (auto simp: inert_def after_indexes_start_def signal_shutdown_def andthen_def seq_def gets_def modify_def ret_def)

lemma inert_runs:
  "runs (sys_step env y cfg) s ls s' \<Longrightarrow> inert t w s \<Longrightarrow> inert t w s' \<and> set ls \<subseteq> {Start, Signal}"
  by (induction rule: runs.induct) (auto dest: inert_step)

text \<open>
  C24: Disabled means inert. When the enable flag is not truthy, the launch always succeeds and leaves one
  log line; afterwards, in every run, nothing happens but the start and the shutdown, no event is ever
  queued, no listener, timer or worker exists, and no call is made to the outside at all: the world
  and the trace stay as they are.
\<close>

theorem disabled_is_inert:
  assumes "\<not> is_enabled cfg" and "launch env cfg s0 = (r, s)" and "runs (sys_step env y cfg) s ls s'"
  shows "r = Inr () \<and> trace s' = trace s0 @ [ELog Info MExtDisabled] \<and> world s' = world s0 \<and>
    events s' = [] \<and> worker s' = None \<and> set ls \<subseteq> {Start, Signal}"
  using assms(2)
proof (cases rule: launch_cases)
  case off
  then have "inert (trace s0 @ [ELog Info MExtDisabled]) (world s0) s"
    using assms(1) by (simp add: inert_def fresh_def)
  from inert_runs [OF assms(3) this] off(2) show ?thesis by (simp add: inert_def)
qed (use assms(1) in simp_all)

text \<open>
  C18: What validation accepts, the start accepts. After a launch of the enabled extension that returned, in
  every state that a run reaches before the start, the start cannot raise, whatever the sweep of stale locks
  runs into: the worker is the one the configuration describes, with nothing unpushed and not
  degraded, its thread runs, the timer has a positive interval, and no event that was queued in
  between is lost.
\<close>

theorem validated_start:
  assumes "is_enabled cfg" and "launch env cfg s0 = (Inr (), s)" and "trace s0 = []"
    and "runs (sys_step env y cfg) s ls t"
  shows "\<exists>t' c n. after_indexes_start env cfg t = (Inr (), t') \<and> from_config cfg = Some c \<and>
    worker t' = Some c \<and> \<not> unpushed t' \<and> \<not> degraded t' \<and> worker_thread t' = Checking \<and>
    timer t' = Some n \<and> 0 < n \<and> events t' = events t"
proof -
  have "accepted cfg" by (rule launched_accepted [OF assms(1,2)])
  then obtain c n where c: "from_config cfg = Some c" "sweep_interval cfg = Some n" "0 < n"
    by (auto simp: accepted_def positive_float_def from_config_def split: option.splits)
  have "enabled t"
    using launched_runs_ok [OF assms(2-4)] assms(1) by (simp add: sys_ok_def lifecycle_ok_def)
  then obtain t' where run: "after_indexes_start env cfg t = (Inr (), t')"
    using start_returns c(1,2) by blast
  then show ?thesis
  proof (cases rule: start_cases)
    case off
    with \<open>enabled t\<close> show ?thesis by simp
  next
    case (on c' n' s1 s2)
    note f = start_on_fields [OF on(7,8,4,5,9)]
    from run c on(2,3) f show ?thesis by (auto simp: degraded_def)
  qed
qed

text \<open>
  A refused launch attaches nothing. As long as git processes end by themselves, the only way the
  launch of the extension fails is a \<^verbatim>\<open>ValueError\<close> of the validation of an enabled configuration, and
  then no listener is attached, no event is queued, and there is neither a worker nor a timer.
\<close>

theorem refused_launch_attaches_nothing:
  assumes "git_answers env" and "launch env cfg s0 = (Inl e, s)"
  shows "is_enabled cfg \<and> (\<exists>m. e = ValueError m) \<and> \<not> write_listener s \<and> \<not> change_listener s \<and>
    events s = [] \<and> worker s = None \<and> timer s = None"
  using assms(2)
proof (cases rule: launch_cases)
  case (refused e')
  note f = ext_fields [OF io_fields(2) [OF framesD [OF validate_frame refused(2)]], unfolded fresh_def, simplified]
  have "\<exists>m. e = ValueError m" using validate_raises_ValueError [OF assms(1) refused(2)] refused(3) by simp
  with refused(1) f show ?thesis by simp
qed simp_all

end
