(* ===== verification/SystemRuns.thy ===== *)
theory SystemRuns
  imports SystemInv
begin

text \<open>
  What the running system achieves and where it stays: it can always work off its queue, it is purely
  local without a remote, and its shutdown delivers what is left.
\<close>

section \<open>Working off the queue\<close>

lemma accepted_debounce:
  assumes "accepted cfg" and "from_config cfg = Some c"
  shows "\<not> f_lt (push_debounce c) (Fin 0)"
  using assms
  by (cases "push_debounce c")
     (auto simp: accepted_def positive_float_def from_config_def split: option.splits)

lemma consume_returns: "\<exists>s'. consume env y cfg c answer q s = (Inr (), s')"
proof -
  obtain x s1 where "run_iteration env y cfg c answer (s\<lparr>events := q\<rparr>) = (Inr x, s1)"
    using run_iteration_never_raises by (rule never_raisesE)
  then show ?thesis by (simp add: consume_def andthen_def seq_def modify_def)
qed

text \<open>A thread that is alive and not told to stop can take the next event.\<close>

lemma take_next:
  assumes "worker s = Some c" and "worker_thread s = Checking" and "\<not> worker_stop s"
    and "\<not> f_lt (push_debounce c) (Fin 0)" and "events s = ev # q"
  shows "\<exists>s'. runs (sys_step env y cfg) s [Check, Consume ev] s' \<and> worker s' = Some c \<and>
    worker_thread s' = Checking \<and> \<not> worker_stop s' \<and> events s' = q"
proof -
  define s1 where "s1 = s\<lparr>worker_thread := Blocked\<rparr>"
  have 1: "sys_step env y cfg s Check s1"
    using assms by (simp add: step_simps check_stop_def modify_def s1_def)
  obtain s2 where c: "consume env y cfg c (Some ev) q s1 = (Inr (), s2)" using consume_returns by blast
  have "wait_get (events s1) (push_debounce c) [0] = Item ev q" "clock_looks [0]"
    using assms(4,5) by (simp_all add: s1_def get_head clock_looks_def)
  with c assms have 2: "sys_step env y cfg s1 (Consume ev) s2"
    by (intro do_consume [where looks = "[0]"]) (simp_all add: s1_def)
  obtain s3 where "s2 = s3\<lparr>worker_thread := Checking\<rparr>" "worker_st.more s3 = worker_st.more (s1\<lparr>events := q\<rparr>)"
    using consume_run [OF c] by blast
  with ext_fields [of s3 "s1\<lparr>events := q\<rparr>"] assms
  have "worker s2 = Some c \<and> worker_thread s2 = Checking \<and> \<not> worker_stop s2 \<and> events s2 = q"
    by (simp add: s1_def)
  moreover have "runs (sys_step env y cfg) s ([Check] @ [Consume ev]) s2"
    by (rule runs_append, rule runs_one, rule 2, rule runs_one, rule 1)
  ultimately show ?thesis by auto
qed

definition work_off :: "sync_event list \<Rightarrow> label list" where
  "work_off q = concat (map (\<lambda>ev. [Check, Consume ev]) q)"

lemma handled_work_off [simp]: "handled (work_off q) = q"
  by (induction q) (auto simp: handled_def work_off_def)

lemma work_off_runs:
  assumes "worker s = Some c" and "worker_thread s = Checking" and "\<not> worker_stop s"
    and "\<not> f_lt (push_debounce c) (Fin 0)"
  shows "\<exists>s'. runs (sys_step env y cfg) s (work_off (events s)) s' \<and> events s' = [] \<and> worker s' = Some c \<and>
    worker_thread s' = Checking \<and> \<not> worker_stop s'"
  using assms
proof (induction "events s" arbitrary: s)
  case Nil
  then show ?case by (auto simp: work_off_def runs_Nil)
next
  case (Cons ev q)
  obtain s1 where 1: "runs (sys_step env y cfg) s [Check, Consume ev] s1" "worker s1 = Some c"
    "worker_thread s1 = Checking" "\<not> worker_stop s1" "events s1 = q"
    using take_next [OF Cons.prems Cons.hyps(2) [symmetric]] by blast
  obtain s2 where 2: "runs (sys_step env y cfg) s1 (work_off (events s1)) s2" "events s2 = []"
    "worker s2 = Some c" "worker_thread s2 = Checking" "\<not> worker_stop s2"
    using Cons.hyps(1) [OF 1(5) [symmetric] 1(2-4) Cons.prems(4)] by blast
  have "runs (sys_step env y cfg) s ([Check, Consume ev] @ work_off (events s1)) s2"
    by (rule runs_append [OF 2(1) 1(1)])
  then have "runs (sys_step env y cfg) s (work_off (events s)) s2"
    using 1(5) by (simp add: work_off_def flip: Cons.hyps(2))
  with 2 show ?case by blast
qed

section \<open>Without a remote\<close>

lemma sweep_local: "grows local_effect (startup_sweep env c)"
proof -
  have "grows local_effect (sweep_lock env running l)" for running l
    by (rule grows_mono [OF sweep_lock_grows]) (auto simp: sweep_effect_def local_effect_def)
  then show ?thesis
    unfolding startup_sweep_def sweep_def
    by (auto intro!: grow_intros git_dir_local find_locks_silent git_running_silent simp: except_any_def)
qed

lemma maybe_push_local: "remote c = [] \<Longrightarrow> grows local_effect (maybe_push env c)"
  unfolding maybe_push_def by (auto intro!: grow_intros)

definition stays_local :: "('w, 'z) io_scheme \<Rightarrow> ('w, 'z) io_scheme \<Rightarrow> bool" where
  "stays_local s s' \<longleftrightarrow> (\<exists>es. trace s' = trace s @ es \<and> list_all local_effect es)"

lemma stays_localI: "grows local_effect m \<Longrightarrow> m s = (r, s') \<Longrightarrow> stays_local s s'"
  using grows_new unfolding stays_local_def by blast

lemma stays_local_same: "trace s' = trace s \<Longrightarrow> stays_local s s'"
  by (simp add: stays_local_def)

lemma stays_local_trans: "stays_local s s1 \<Longrightarrow> stays_local s1 s2 \<Longrightarrow> stays_local s s2"
  unfolding stays_local_def by (metis append.assoc list_all_append)

lemma from_config_remote: "from_config cfg = Some c \<Longrightarrow> remote c = cfg_remote cfg"
  by (auto simp: from_config_def split: option.splits)

lemma consume_local:
  assumes "remote c = []" and "consume env y cfg c answer q s = (Inr (), s')"
  shows "stays_local s s'"
proof -
  obtain s1 where i: "run_iteration env y cfg c answer (s\<lparr>events := q\<rparr>) = (Inr (), s1)"
    and s': "s' = s1\<lparr>worker_thread := Checking\<rparr>"
    using consume_run [OF assms(2)] by blast
  from stays_localI [OF run_iteration_local [OF assms(1)] i] show ?thesis
    by (simp add: stays_local_def s')
qed

lemma step_local:
  assumes ok: "sys_ok cfg s" and none: "cfg_remote cfg = []" and step: "sys_step env y cfg s l s'"
  shows "stays_local s s'"
proof -
  have remote: "remote c = []" if "worker s = Some c" for c
    using ok none that from_config_remote by (auto simp: sys_ok_def lifecycle_ok_def)
  show ?thesis
    using step
  proof cases
    case do_start
    from do_start(4) show ?thesis
    proof (cases rule: start_cases)
      case (on c n s1 s2)
      from stays_localI [OF sweep_local on(8)] on(6,9) show ?thesis by (simp add: stays_local_def)
    qed (simp add: stays_local_same)
  next
    case (do_consume c looks ev rest)
    then show ?thesis using remote consume_local by blast
  next
    case (do_quiet c looks)
    then show ?thesis using remote consume_local by blast
  next
    case do_signal
    then show ?thesis
      by (cases "worker s")
         (auto simp: signal_shutdown_def andthen_def seq_def modify_def gets_def ret_def intro: stays_local_same)
  next
    case do_flush
    show ?thesis
    proof (cases "worker s")
      case None
      with do_flush show ?thesis by (simp add: final_flush_def seq_def gets_def stays_local_same)
    next
      case (Some c)
      with do_flush have "maybe_push env c s = (Inr (), s')" by (simp add: final_flush_def seq_def gets_def)
      then show ?thesis by (rule stays_localI [OF maybe_push_local [OF remote [OF Some]]])
    qed
  next
    case do_tick
    then show ?thesis
      by (auto simp: sweep_tick_def seq_def gets_def andthen_def enqueue_def modify_def ret_def
          intro: stays_local_same split: if_splits)
  qed (auto simp: on_write_def on_change_def enqueue_def check_stop_def modify_def intro: stays_local_same)
qed

lemma runs_local:
  "runs (sys_step env y cfg) s ls s' \<Longrightarrow> sys_ok cfg s \<Longrightarrow> cfg_remote cfg = [] \<Longrightarrow> stays_local s s'"
proof (induction rule: runs.induct)
  case (runs_step s ls s1 l s2)
  have "sys_ok cfg s1" by (rule system.runs_keep [OF runs_step.hyps(1) runs_step.prems(1)])
  from step_local [OF this runs_step.prems(2) runs_step.hyps(2)] runs_step.IH [OF runs_step.prems]
  show ?case by (blast intro: stays_local_trans)
qed (simp add: stays_local_same)

section \<open>A thread that has ended\<close>

lemma ledger_ended:
  "runs ledger_step a ls a' \<Longrightarrow> l_thread a = Ended \<Longrightarrow> handled ls = [] \<and> l_thread a' = Ended"
proof (induction rule: runs.induct)
  case (runs_step s ls s1 l s2)
  then have "l_thread s1 = Ended" "handled ls = []" by simp_all
  from runs_step.hyps(2) this(1) have "handled_by l = [] \<and> l_thread s2 = Ended"
    by (elim ledger_cases) (auto elim: produced_by_one)
  with \<open>handled ls = []\<close> show ?case by (simp add: handled_def)
qed (simp add: handled_def)

section \<open>Properties\<close>

text \<open>
  The queue can always be worked off. In a system that was launched with a validated configuration, at every
  moment at which the worker's thread is at the top of its loop and was not told to stop, it can, by its own
  steps alone, handle every event that waits, in order, and reach an empty queue: no event, whatever
  handling it runs into, blocks the ones behind it.
\<close>

theorem queue_can_be_worked_off:
  assumes "is_enabled cfg" and "launch env cfg s0 = (Inr (), s)" and "trace s0 = []"
    and "runs (sys_step env y cfg) s ls t" and "worker_thread t = Checking" and "\<not> worker_stop t"
  shows "\<exists>ks t'. runs (sys_step env y cfg) t ks t' \<and> list_all worker_label ks \<and> handled ks = events t \<and>
    events t' = [] \<and> worker_thread t' = Checking"
proof -
  have ok: "sys_ok cfg t" by (rule launched_runs_ok [OF assms(2-4)])
  with assms(5) obtain c where c: "worker t = Some c" "from_config cfg = Some c"
    by (auto simp: sys_ok_def lifecycle_ok_def)
  have "accepted cfg" by (rule launched_accepted [OF assms(1,2)])
  from work_off_runs [OF c(1) assms(5,6) accepted_debounce [OF this c(2)]]
  obtain t' where "runs (sys_step env y cfg) t (work_off (events t)) t'" "events t' = []"
    "worker_thread t' = Checking" by blast
  moreover have "list_all worker_label (work_off q)" for q by (induction q) (auto simp: work_off_def)
  ultimately show ?thesis by (intro exI [of _ "work_off (events t)"] exI [of _ t']) simp
qed

text \<open>
  C25: Without a remote the whole system is local. From the launch on, in every run, with the startup
  sweep and the flush of the shutdown, a system that is configured with an empty remote runs no git
  command but \<^verbatim>\<open>add\<close>, \<^verbatim>\<open>diff\<close>, \<^verbatim>\<open>commit\<close> and \<^verbatim>\<open>rev-parse\<close> and makes no request to a monitor.
\<close>

theorem commit_only_system_is_local:
  assumes "cfg_remote cfg = []" and "launch env cfg s0 = (Inr (), s)" and "trace s0 = []"
    and "runs (sys_step env y cfg) s ls s'" and "e \<in> set (new_effects s s')"
  shows "local_effect e"
proof -
  have "stays_local s s'" by (rule runs_local [OF assms(4) launch_ok [OF assms(2,3)] assms(1)])
  with assms(5) show ?thesis by (auto simp: stays_local_def new_effects_def list_all_iff)
qed

text \<open>
  The shutdown delivers what is left. With a remote and a branch configured, as long as git processes end by
  themselves and the push command succeeds, the flush at the end of the shutdown pushes what is still marked
  as unpushed, even when the fetch fails or the rebase is aborted.
\<close>

theorem shutdown_delivers:
  assumes "git_answers env" and "always_exits env (push_argv c) 0"
    and "remote c \<noteq> []" and "branch c \<noteq> []" and "worker s = Some c" and "unpushed s"
    and "sys_step env y cfg s Flush s'"
  shows "\<not> unpushed s' \<and> push_succeeded (cmds (new_effects s s'))"
proof -
  have "maybe_push env c s = (Inr (), s')"
    using assms(5,7) by (auto elim!: step_cases simp: final_flush_def seq_def gets_def)
  then show ?thesis by (rule maybe_push_delivers [OF sync_remote_answers [OF assms(1)] assms(2-4,6)])
qed

text \<open>The worker does not end in a wait whose debounce is in the range of the locks.\<close>

lemma no_crash_in_range:
  assumes "worker s = Some c" and "push_debounce c = Fin d" and "0 < d" and "d + 1 \<le> lock_timeout_max"
  shows "\<not> sys_step env y cfg s Crash s'"
proof
  assume "sys_step env y cfg s Crash s'"
  then obtain looks e where w: "clock_looks looks" "wait_get (events s) (Fin d) looks = Failed e"
    using assms(1,2) by (auto elim!: step_cases)
  show False
  proof (cases "events s")
    case Nil
    with w wait_get_in_range [OF assms(3,4) clock_looks_nonneg] show False by fastforce
  next
    case (Cons ev q)
    with w assms(3) wait_get_head [of "Fin d" looks ev q] show False by (simp add: clock_looks_def)
  qed
qed

text \<open>An infinite one on an empty queue: the only thing the worker can do is to end.\<close>

lemma infinite_wait_crashes:
  assumes "worker s = Some c" and "push_debounce c = PInf" and "worker_thread s = Blocked" and "events s = []"
  shows "sys_step env y cfg s Crash (s\<lparr>worker_thread := Ended\<rparr>)"
    and "sys_step env y cfg s l s' \<Longrightarrow> worker_label l \<Longrightarrow> l = Crash \<and> s' = s\<lparr>worker_thread := Ended\<rparr>"
proof -
  obtain m where "wait_get [] PInf [0] = Failed (OverflowError m)" using wait_get_infinite [of "[0]"] by blast
  then show "sys_step env y cfg s Crash (s\<lparr>worker_thread := Ended\<rparr>)"
    using assms by (intro do_crash [where looks = "[0]" and c = c]) (simp_all add: clock_looks_def)
  assume "sys_step env y cfg s l s'" and "worker_label l"
  then show "l = Crash \<and> s' = s\<lparr>worker_thread := Ended\<rparr>"
  proof cases
    case (do_consume c' looks ev rest)
    with assms(4) wait_get_Item [OF do_consume(5)] show ?thesis by simp
  next
    case (do_quiet c' looks)
    with assms wait_get_infinite [of looks] show ?thesis by (fastforce simp: clock_looks_def)
  qed (use assms(3) in auto)
qed

text \<open>
  C39: An infinite debounce ends the worker. Validation takes \<^verbatim>\<open>inf\<close> for a positive number of seconds. The worker that is
  configured with it can wait on an empty queue in one way only: whenever it comes to such a wait, the first look raises
  and the thread ends, so no quiet window ever opens; and in every run from there on the thread stays ended, no event is
  handled any more, and all that is produced piles up. With a debounce in the range of the locks no wait ends the
  worker.
\<close>

theorem infinite_debounce_ends_worker:
  fixes env :: "'w env" and s :: "'w ext_st"
  assumes "VAULT_GIT_PUSH_DEBOUNCE cfg = ''inf''" and "from_config cfg = Some c"
    and "worker s = Some c" and "worker_thread s = Blocked" and "events s = []"
  shows "check_timing [(''VAULT_GIT_PUSH_DEBOUNCE'', VAULT_GIT_PUSH_DEBOUNCE cfg)] = Inr () \<and>
    (\<exists>s'. sys_step env y cfg s Crash s') \<and>
    (\<forall>l s'. sys_step env y cfg s l s' \<longrightarrow> worker_label l \<longrightarrow>
       l = Crash \<and> (\<forall>ls t. runs (sys_step env y cfg) s' ls t \<longrightarrow>
         worker_thread t = Ended \<and> handled ls = [] \<and> events t = produced ls)) \<and>
    (\<forall>c' d t t'. worker t = Some c' \<longrightarrow> push_debounce c' = Fin d \<longrightarrow> 0 < d \<longrightarrow> d + 1 \<le> lock_timeout_max \<longrightarrow>
       \<not> sys_step env y cfg t Crash t')"
proof -
  have inf: "float_of_text ''inf'' = Some PInf" by code_simp
  have d: "push_debounce c = PInf"
    using assms(1,2) inf by (auto simp: from_config_def cfg_push_debounce_def split: option.splits)
  note crash = infinite_wait_crashes [OF assms(3) d assms(4,5)]
  have stays: "worker_thread t = Ended \<and> handled ls = [] \<and> events t = produced ls"
    if "runs (sys_step env y cfg) (s\<lparr>worker_thread := Ended\<rparr>) ls t" for ls t
    using ledger_ended [OF ledger.runs_simulate [OF that]] ledger_fifo [OF ledger.runs_simulate [OF that]] assms(5)
    by simp
  show ?thesis
  proof (intro conjI allI impI)
    show "check_timing [(''VAULT_GIT_PUSH_DEBOUNCE'', VAULT_GIT_PUSH_DEBOUNCE cfg)] = Inr ()"
      using assms(1) inf by simp
    show "\<exists>s'. sys_step env y cfg s Crash s'" using crash(1) by blast
    fix c' d and t t' :: "'w ext_st"
    assume "worker t = Some c'" "push_debounce c' = Fin d" "0 < d" "d + 1 \<le> lock_timeout_max"
    then show "\<not> sys_step env y cfg t Crash t'" by (rule no_crash_in_range)
  qed (use crash(2) stays in blast)+
qed

end
