(* ===== verification/SystemBackup.thy ===== *)
theory SystemBackup
  imports Backup SystemRuns
begin

text \<open>
  The same promise for the whole system, in every interleaving: as long as git keeps its laws, its commits, rebases and
  aborts end and aborts work, and everything was on the remote at the launch, a clear mark of unpushed commits means that
  everything is on the remote. And what the mark does not cover: what an earlier
  process left behind.
\<close>

section \<open>The start leaves the repository alone\<close>

lemma startup_sweep_steady:
  assumes "git_laws env (git c) rem v"
  shows "moves (steady v) (startup_sweep env c)"
proof -
  note calls = steady_calls [OF laws_others [OF assms]] steady.moves_intros
  have "moves (steady v) (scan_comm env es)" for es
    by (induction es) (auto intro!: calls simp: except_os_def split: option.split exn.splits)
  then have "moves (steady v) (git_running env)"
    unfolding git_running_def
    by (auto intro!: calls simp: except_os_def Let_def split: option.split exn.splits list.split)
  moreover have "moves (steady v) (sweep_lock env running l)" for running l
    unfolding sweep_lock_def Let_def by (auto intro!: calls split: option.split exn.splits)
  ultimately show ?thesis
    unfolding startup_sweep_def sweep_def
    by (auto intro!: calls find_locks_steady git_dir_steady [OF assms] laws_others [OF assms] simp: except_any_def)
qed

lemma start_steady:
  assumes "git_laws env (git c) rem v" and "from_config cfg = Some c"
  shows "moves (steady v) (after_indexes_start env cfg)"
  unfolding after_indexes_start_def worker_from_config_def new_worker_def start_worker_def assms(2)
    option.case seq_of_sum
  by (auto intro!: steady.moves_intros startup_sweep_steady [OF assms(1)] steady_calls laws_others [OF assms(1)]
      split: option.split)

section \<open>The invariant\<close>

text \<open>
  Before the start, everything has been delivered; from the start on, the mark of the worker is true.
\<close>

definition sys_books ::
  "'w env \<Rightarrow> settings \<Rightarrow> worker_conf \<Rightarrow> ('w \<Rightarrow> repo) \<Rightarrow> string \<Rightarrow> ('w, 'z) ext_st_scheme \<Rightarrow> bool" where
  "sys_books env cfg c v b s \<longleftrightarrow>
     sys_ok cfg s \<and> from_config cfg = Some c \<and> books_true env c v b (s\<lparr>unpushed := worker_thread s \<noteq> NotStarted \<and> unpushed s\<rparr>)"

lemma sys_booksD:
  assumes "sys_books env cfg c v b s"
  shows "sys_ok cfg s" "from_config cfg = Some c" "git_laws env (git c) (remote c) v"
    "movers_end env (git c) (remote c)" "pushes_from c b"
    "worker_thread s = NotStarted \<Longrightarrow> delivered (v (world s))" "on_branch (v (world s)) = Some b"
    "worker_thread s \<noteq> NotStarted \<Longrightarrow> mark_true v b s" "aborts_work env (git c) (remote c) v"
  using assms by (auto simp: sys_books_def books_true_def mark_true_def)

lemma sys_booksI:
  assumes "sys_books env cfg c v b s" and "sys_ok cfg s'"
    and "mark_true v b (s'\<lparr>unpushed := worker_thread s' \<noteq> NotStarted \<and> unpushed s'\<rparr>)"
  shows "sys_books env cfg c v b s'"
  using assms by (simp add: sys_books_def books_true_def)

text \<open>A step that leaves the world and the mark alone.\<close>

lemma sys_books_same:
  assumes "sys_books env cfg c v b s" and "sys_ok cfg s'" and "world s' = world s" and "unpushed s' = unpushed s"
    and "worker_thread s' = NotStarted \<longleftrightarrow> worker_thread s = NotStarted"
  shows "sys_books env cfg c v b s'"
  using assms by (simp add: sys_books_def books_true_def mark_true_def)

lemma the_worker: "sys_books env cfg c v b s \<Longrightarrow> worker s = Some c' \<Longrightarrow> c' = c"
  by (auto simp: sys_books_def sys_ok_def lifecycle_ok_def)

lemma consume_books:
  assumes sb: "sys_books env cfg c v b s" and ok: "sys_ok cfg s'" and "worker_thread s = Blocked"
    and run: "consume env y cfg c answer q s = (Inr (), s')"
  shows "sys_books env cfg c v b s'"
proof -
  obtain s1 where i: "run_iteration env y cfg c answer (s\<lparr>events := q\<rparr>) = (Inr (), s1)"
    and s': "s' = s1\<lparr>worker_thread := Checking\<rparr>"
    using consume_run [OF run] by blast
  have "books_true env c v b (s\<lparr>events := q\<rparr>)"
    using sys_booksD [OF sb] assms(3) by (simp add: books_true_def mark_true_def)
  then have "mark_true v b s1" using run_iteration_marks [OF _ i] by (simp add: books_true_def)
  then show ?thesis using s' by (intro sys_booksI [OF sb ok]) (simp add: mark_true_def)
qed

lemma flush_books:
  assumes sb: "sys_books env cfg c v b s" and ok: "sys_ok cfg s'" and run: "final_flush env s = (Inr (), s')"
  shows "sys_books env cfg c v b s'"
proof (cases "worker s")
  case None
  with run sb show ?thesis by (simp add: final_flush_def seq_def gets_def)
next
  case (Some c')
  with the_worker [OF sb Some] run have p: "maybe_push env c s = (Inr (), s')"
    by (simp add: final_flush_def seq_def gets_def)
  have "worker_thread s \<noteq> NotStarted" "worker_thread s' = worker_thread s"
    using sys_booksD(1) [OF sb] Some ext_fields(7) [OF framesD [OF maybe_push_ext p]]
    by (auto simp: sys_ok_def lifecycle_ok_def)
  moreover from this(1) have "mark_true v b s'"
    using maybe_push_marks [OF sys_booksD(3,4,9,5) [OF sb] _ p] sys_booksD(8) [OF sb] by blast
  ultimately show ?thesis by (intro sys_booksI [OF sb ok]) simp
qed

lemma start_books:
  assumes sb: "sys_books env cfg c v b s" and ok: "sys_ok cfg s'" and "worker_thread s = NotStarted"
    and run: "after_indexes_start env cfg s = (Inr (), s')"
  shows "sys_books env cfg c v b s'"
proof -
  have "steady v (world s) (world s')"
    by (rule movesD [OF start_steady [OF sys_booksD(3,2) [OF sb]] run])
  then have "delivered (v (world s'))" "on_branch (v (world s')) = Some b"
    using sys_booksD(6,7) [OF sb] assms(3) anchored_delivered anchored_branch steady_anchored by metis+
  then show ?thesis by (intro sys_booksI [OF sb ok]) (simp add: mark_true_def)
qed

lemma step_keeps_books:
  assumes sb: "sys_books env cfg c v b s" and step: "sys_step env y cfg s l s'"
  shows "sys_books env cfg c v b s'"
proof -
  have ok: "sys_ok cfg s'" by (rule step_keeps_ok [OF sys_booksD(1) [OF sb] step])
  note same = sys_books_same [OF sb ok]
  from step show ?thesis
  proof cases
    case do_start
    then show ?thesis by (intro start_books [OF sb ok]) simp_all
  next
    case (do_write oper ps)
    then show ?thesis by (intro same) (auto simp: on_write_def enqueue_def modify_def)
  next
    case do_change
    then show ?thesis by (intro same) (auto simp: on_change_def enqueue_def modify_def)
  next
    case do_tick
    then show ?thesis
      by (intro same) (auto simp: sweep_tick_def seq_def gets_def andthen_def enqueue_def modify_def ret_def split: if_splits)
  next
    case do_check
    then show ?thesis by (intro same) (auto simp: check_stop_def modify_def split: if_splits)
  next
    case (do_consume c' looks ev rest)
    with the_worker [OF sb do_consume(3)] show ?thesis by (intro consume_books [OF sb ok]) simp_all
  next
    case (do_quiet c' looks)
    with the_worker [OF sb do_quiet(3)] show ?thesis by (intro consume_books [OF sb ok]) simp_all
  next
    case (do_crash c' looks e)
    then show ?thesis by (intro same) auto
  next
    case do_signal
    then show ?thesis
      by (cases "worker s"; intro same) (auto simp: signal_shutdown_def andthen_def seq_def modify_def gets_def ret_def)
  next
    case do_flush
    then show ?thesis by (intro flush_books [OF sb ok]) simp
  qed
qed

interpretation backup: step_invariant "sys_step env y cfg" "sys_books env cfg c v b" for env y cfg c v b
  by unfold_locales (rule step_keeps_books)


lemma launched_books:
  assumes "launch env cfg s0 = (Inr (), s)" and "trace s0 = []" and "from_config cfg = Some c"
    and "git_laws env (git c) (remote c) v" and "movers_end env (git c) (remote c)" and "aborts_work env (git c) (remote c) v"
    and "pushes_from c b" and "on_branch (v (world s)) = Some b" and "delivered (v (world s))"
  shows "sys_books env cfg c v b s"
  using assms launch_ok [OF assms(1,2)] launched_fields(2) [OF assms(1)]
  by (simp add: sys_books_def books_true_def mark_true_def)

section \<open>A quiet window\<close>

text \<open>A thread that is alive, with an empty queue, can let the window pass; with a push that works nothing is then left.\<close>

lemma quiet_round:
  assumes "syncs_end env (git c) (remote c)" and "always_exits env (push_argv c) 0" and "remote c \<noteq> []" and "branch c \<noteq> []"
    and "push_debounce c = Fin d" and "0 < d" and "d + 1 \<le> lock_timeout_max" and "worker s = Some c" and "worker_thread s = Checking"
    and "\<not> worker_stop s" and "events s = []"
  shows "\<exists>s'. runs (sys_step env y cfg) s [Check, Quiet] s' \<and> \<not> unpushed s' \<and> events s' = [] \<and>
    worker_thread s' = Checking"
proof -
  define s1 where "s1 = s\<lparr>worker_thread := Blocked\<rparr>"
  have 1: "sys_step env y cfg s Check s1"
    using assms by (simp add: step_simps check_stop_def modify_def s1_def)
  obtain s2 where c: "consume env y cfg c None [] s1 = (Inr (), s2)" using consume_returns by blast
  have 2: "sys_step env y cfg s1 Quiet s2"
    using c assms wait_get_expired [OF assms(6,7)]
    by (intro do_quiet [where looks = "[0, d]" and c = c]) (simp_all add: s1_def clock_looks_def)
  obtain s3 where p: "maybe_push env c (s1\<lparr>events := []\<rparr>) = (Inr (), s3)" and s2: "s2 = s3\<lparr>worker_thread := Checking\<rparr>"
    and m: "worker_st.more s3 = worker_st.more (s1\<lparr>events := []\<rparr>)"
    using consume_run [OF c] by (auto simp: run_iteration_def)
  have "\<not> unpushed s3"
    using maybe_push_delivers [OF syncs_return [OF assms(1)] assms(2-4) _ p] push_protocol [OF p] by blast
  moreover have "runs (sys_step env y cfg) s ([Check] @ [Quiet]) s2"
    by (rule runs_append, rule runs_one, rule 2, rule runs_one, rule 1)
  ultimately show ?thesis using s2 ext_fields(2) [OF m] by auto
qed

section \<open>What an earlier process left\<close>

text \<open>
  \<open>idle s\<close>: the thread has been started, and nothing is marked as unpushed. Without an event, nothing is run
  from there on.
\<close>

definition idle :: "('w, 'z) ext_st_scheme \<Rightarrow> bool" where
  "idle s \<longleftrightarrow> worker_thread s \<noteq> NotStarted \<and> \<not> unpushed s"

lemma idle_push: "\<not> unpushed s \<Longrightarrow> maybe_push env c s = (r, s') \<Longrightarrow> s' = s"
  by (auto simp: maybe_push_def seq_def gets_def)

lemma idle_consume:
  assumes "consume env y cfg c None q s = (Inr (), s')" and "idle s"
  shows "idle s' \<and> trace s' = trace s"
proof -
  obtain s1 where "run_iteration env y cfg c None (s\<lparr>events := q\<rparr>) = (Inr (), s1)"
    and s': "s' = s1\<lparr>worker_thread := Checking\<rparr>"
    using consume_run [OF assms(1)] by blast
  then have "s1 = s\<lparr>events := q\<rparr>"
    using assms(2) idle_push [of "s\<lparr>events := q\<rparr>" env c "Inr ()" s1] by (simp add: run_iteration_def idle_def)
  with s' assms(2) show ?thesis by (simp add: idle_def)
qed

lemma idle_step:
  assumes "sys_step env y cfg s l s'" and "idle s" and "handled_by l = []"
  shows "idle s' \<and> trace s' = trace s"
  using assms(1)
proof cases
  case (do_quiet c looks)
  then show ?thesis by (intro idle_consume [OF _ assms(2)]) simp
next
  case do_flush
  show ?thesis
  proof (cases "worker s")
    case (Some c)
    with do_flush have "s' = s" using assms(2) idle_push by (auto simp: final_flush_def seq_def gets_def idle_def)
    with assms(2) show ?thesis by simp
  qed (use do_flush assms(2) in \<open>simp add: final_flush_def seq_def gets_def\<close>)
next
  case do_signal
  with assms(2) show ?thesis
    by (cases "worker s") (auto simp: signal_shutdown_def andthen_def seq_def modify_def gets_def ret_def idle_def)
qed (use assms(2,3) in \<open>auto simp: idle_def on_write_def on_change_def sweep_tick_def check_stop_def enqueue_def seq_def
  gets_def andthen_def modify_def ret_def split: if_splits\<close>)

lemma idle_runs:
  "runs (sys_step env y cfg) s ls s' \<Longrightarrow> idle s \<Longrightarrow> handled ls = [] \<Longrightarrow> idle s' \<and> trace s' = trace s"
proof (induction rule: runs.induct)
  case (runs_step s ls s1 l s2)
  then have "handled ls = []" "handled_by l = []" by (simp_all add: handled_def)
  with runs_step idle_step [OF runs_step.hyps(2)] show ?case by simp
qed simp

section \<open>Properties\<close>

text \<open>
  C2: A clear mark means that everything is on the remote. Let git keep its laws, let its commits, rebases and aborts end
  by themselves (every other command may be killed by the timeout or fail to start), and let an abort succeed where a
  rebase stopped. Let the branch to push be checked out and everything be on the remote when the system is launched. Then
  in every run, whatever the interleaving of listeners, timer, worker and shutdown, and whatever else fails: as soon as
  the worker has no mark of unpushed commits, every revision of the checked out history is on the remote, also after a
  rebase. (Of a commit that is killed, and of what was not on the remote at the launch, the mark knows nothing.)
\<close>

theorem clear_mark_means_delivered:
  assumes "launch env cfg s0 = (Inr (), s)" and "trace s0 = []" and "from_config cfg = Some c"
    and "git_laws env (git c) (remote c) v" and "movers_end env (git c) (remote c)"
    and "aborts_work env (git c) (remote c) v" and "pushes_from c b"
    and "on_branch (v (world s)) = Some b" and "delivered (v (world s))"
    and "runs (sys_step env y cfg) s ls s'" and "\<not> unpushed s'"
  shows "delivered (v (world s'))"
proof -
  have "sys_books env cfg c v b s'"
    by (rule backup.runs_keep [OF assms(10) launched_books [OF assms(1-9)]])
  with assms(11) show ?thesis using sys_booksD(6,8) by (fastforce simp: mark_true_def)
qed

text \<open>
  C16: The shutdown leaves everything on the remote. Let git keep its laws, let its commits, rebases, aborts and fetches
  end, let an abort succeed where a rebase stopped, and let the push succeed. Let a remote and a branch be configured, let
  that branch be checked out and everything be on the remote when the system is launched. Then in every run,
  when the flush at the end of the shutdown is done, every revision of the checked out history is on the remote and the
  mark is clear, also where a fetch failed or a rebase was aborted.
\<close>

theorem shutdown_backs_up:
  assumes "launch env cfg s0 = (Inr (), s)" and "trace s0 = []" and "from_config cfg = Some c"
    and "git_laws env (git c) (remote c) v" and "syncs_end env (git c) (remote c)"
    and "aborts_work env (git c) (remote c) v" and "always_exits env (push_argv c) 0"
    and "remote c \<noteq> []" and "branch c \<noteq> []"
    and "on_branch (v (world s)) = Some (branch c)" and "delivered (v (world s))"
    and "runs (sys_step env y cfg) s ls t" and "sys_step env y cfg t Flush t'"
  shows "delivered (v (world t')) \<and> \<not> unpushed t'"
proof -
  have "pushes_from c (branch c)" by (simp add: pushes_from_def)
  from launched_books [OF assms(1-4) syncs_movers [OF assms(5)] assms(6) this assms(10,11)]
  have sb: "sys_books env cfg c v (branch c) t" by (rule backup.runs_keep [OF assms(12)])
  have sb': "sys_books env cfg c v (branch c) t'" by (rule backup.step_keeps [OF sb assms(13)])
  have "worker_stop t" "final_flush env t = (Inr (), t')" using assms(13) by (auto elim!: step_cases)
  with sys_booksD(1) [OF sb] obtain c' where "worker t = Some c'" by (auto simp: sys_ok_def lifecycle_ok_def)
  with the_worker [OF sb this] have w: "worker t = Some c" by simp
  with \<open>final_flush env t = (Inr (), t')\<close> have p: "maybe_push env c t = (Inr (), t')"
    by (simp add: final_flush_def seq_def gets_def)
  have "\<not> unpushed t'"
    using maybe_push_delivers [OF syncs_return [OF assms(5)] assms(7-9) _ p] push_protocol [OF p] by blast
  with sb' show ?thesis using sys_booksD(6,8) by (fastforce simp: mark_true_def)
qed

text \<open>
  C10: The system can always catch up. Under the same conditions as for the shutdown (git's laws; commits, rebases, aborts
  and fetches that end; aborts and a push that work; a remote and a branch configured, that branch checked out and
  everything on the remote at the launch), with a finite debounce for which a wait is within the range of the locks: at
  every moment at which the
  worker's thread is at the top of its loop and was not told to stop, it can, by its own steps alone, handle every event
  that waits, in order, and then bring everything that is committed to the remote, whatever failed before.
\<close>

theorem system_can_catch_up:
  assumes "is_enabled cfg" and "launch env cfg s0 = (Inr (), s)" and "trace s0 = []" and "from_config cfg = Some c"
    and "git_laws env (git c) (remote c) v" and "syncs_end env (git c) (remote c)"
    and "aborts_work env (git c) (remote c) v" and "always_exits env (push_argv c) 0"
    and "remote c \<noteq> []" and "branch c \<noteq> []" and "push_debounce c = Fin d" and "d + 1 \<le> lock_timeout_max"
    and "on_branch (v (world s)) = Some (branch c)" and "delivered (v (world s))"
    and "runs (sys_step env y cfg) s ls t" and "worker_thread t = Checking" and "\<not> worker_stop t"
  shows "\<exists>ks t'. runs (sys_step env y cfg) t ks t' \<and> list_all worker_label ks \<and> handled ks = events t \<and>
    events t' = [] \<and> \<not> unpushed t' \<and> delivered (v (world t')) \<and> worker_thread t' = Checking"
proof -
  have "pushes_from c (branch c)" by (simp add: pushes_from_def)
  from launched_books [OF assms(2-5) syncs_movers [OF assms(6)] assms(7) this assms(13,14)]
  have sb: "sys_books env cfg c v (branch c) t" by (rule backup.runs_keep [OF assms(15)])
  with assms(16) obtain c' where "worker t = Some c'"
    using sys_booksD(1) [OF sb] by (auto simp: sys_ok_def lifecycle_ok_def)
  with the_worker [OF sb this] have w: "worker t = Some c" by simp
  have ac: "accepted cfg" by (rule launched_accepted [OF assms(1,2)])
  then have "0 < d" using assms(4,11) by (auto simp: accepted_def positive_float_def from_config_def split: option.splits)
  from work_off_runs [OF w assms(16,17) accepted_debounce [OF ac assms(4)]] obtain t1 where
    1: "runs (sys_step env y cfg) t (work_off (events t)) t1" "events t1 = []" "worker t1 = Some c"
      "worker_thread t1 = Checking" "\<not> worker_stop t1"
    by blast
  from quiet_round [OF assms(6,8-11) \<open>0 < d\<close> assms(12) 1(3-5,2)] obtain t2 where
    2: "runs (sys_step env y cfg) t1 [Check, Quiet] t2" "\<not> unpushed t2" "events t2 = []" "worker_thread t2 = Checking"
    by blast
  have r: "runs (sys_step env y cfg) t (work_off (events t) @ [Check, Quiet]) t2" by (rule runs_append [OF 2(1) 1(1)])
  have "sys_books env cfg c v (branch c) t2" by (rule backup.runs_keep [OF r sb])
  then have "delivered (v (world t2))" using 2(2,4) sys_booksD(8) by (fastforce simp: mark_true_def)
  moreover have "list_all worker_label (work_off q)" for q by (induction q) (auto simp: work_off_def)
  moreover have "handled (work_off (events t) @ [Check, Quiet]) = events t"
    using handled_work_off [of "events t"] by (simp add: handled_def)
  ultimately show ?thesis
    using r 2 by (intro exI [of _ "work_off (events t) @ [Check, Quiet]"] exI [of _ t2]) simp
qed

text \<open>
  C38: A restart forgets the backlog. The start of the worker clears the mark of unpushed commits whatever an earlier process
  left behind, so in every run from there on, until the first event is handled, no git command is run, no push
  is tried, not in a quiet window and not by the flush of the shutdown, and the mark stays clear.
\<close>

theorem restart_forgets_backlog:
  assumes "enabled s" and "sys_step env y cfg s Start t"
    and "runs (sys_step env y cfg) t ls t'" and "handled ls = []"
  shows "\<not> unpushed t' \<and> new_effects t t' = []"
proof -
  from assms(2) have "after_indexes_start env cfg s = (Inr (), t)" by (auto elim: step_cases)
  then have "idle t"
  proof (cases rule: start_cases)
    case (on c n s1 s2)
    from start_on_fields [OF on(7,8,4,5,9)] show ?thesis by (simp add: idle_def)
  qed (use assms(1) in simp)
  from idle_runs [OF assms(3) this assms(4)] show ?thesis by (simp add: idle_def new_effects_def)
qed

end
