(* ===== verification/Hosting.thy ===== *)
theory Hosting
  imports SystemInv
begin

text \<open>
  \<^verbatim>\<open>extension_hosting.py\<close> and \<^verbatim>\<open>main.py\<close>: the extensions that the operator declares beside the
  git-sync extension, and the entry point that validates, loads them and hands the list to the server.
\<close>

section \<open>The import system and third-party code\<close>

text \<open>
  What the package uses of it, as a parameter: the modules \<open>'m\<close>, their attributes \<open>'t\<close>, the objects \<open>'x\<close>
  that a class builds when it is called without arguments. Importing and constructing run
  operator-named code, so both may change the world and raise anything. \<open>h_is_extension\<close> is
  \<^verbatim>\<open>isinstance(target, type) and issubclass(target, Extension)\<close>, and \<open>h_qualname\<close> is the text
  \<^verbatim>\<open>module:qualname\<close> of an object's class. What they raise is given by the class that the handlers of the
  package know it by: a \<^verbatim>\<open>ModuleNotFoundError\<close> is an \<open>ImportError\<close>, a \<^verbatim>\<open>UnicodeDecodeError\<close> a \<open>ValueError\<close>.
\<close>

record ('w, 'm, 't, 'x) host =
  h_import :: "string \<Rightarrow> 'w \<Rightarrow> (exn + 'm) \<times> 'w"
  h_getattr :: "'m \<Rightarrow> string \<Rightarrow> 'w \<Rightarrow> (exn + 't) \<times> 'w"
  h_is_extension :: "'t \<Rightarrow> bool"
  h_repr :: "'t \<Rightarrow> string"
  h_new :: "'t \<Rightarrow> 'w \<Rightarrow> (exn + 'x) \<times> 'w"
  h_qualname :: "'x \<Rightarrow> string"

text \<open>
  \<^verbatim>\<open>importlib.import_module(name)\<close> without a package: a relative name is refused before anything
  is imported.
\<close>

definition import_module :: "('w, 'm, 't, 'x) host \<Rightarrow> string \<Rightarrow> (('w, 'z) io_scheme, 'm) prog" where
  "import_module h name =
     (if startswith name ''.''
      then throw (Raised ''TypeError'' (''the '' @ [single_quote] @ ''package'' @ [single_quote]
             @ '' argument is required to perform a relative import for '' @ py_repr name))
      else andthen (emit (EImport name)) (sys_try (h_import h name)))"

section \<open>Declared extensions\<close>

definition read_extensions :: "(string \<Rightarrow> string option) \<Rightarrow> string" where
  "read_extensions environ = environ_get environ ''VAULT_MCP_EXTENSIONS'' ''''"

definition entry_prefix :: "string \<Rightarrow> string" where
  "entry_prefix spec = ''VAULT_MCP_EXTENSIONS entry '' @ py_repr spec"

text \<open>The two halves of an entry, with what \<^verbatim>\<open>partition\<close> says of the separator.\<close>

definition spec_parts :: "string \<Rightarrow> string \<times> bool \<times> string" where
  "spec_parts spec = (case partition_at (CHR '':'') spec of (a, sep, b) \<Rightarrow> (strip a, sep, strip b))"

text \<open>\<^verbatim>\<open>except ImportError as e: raise\<close> and \<^verbatim>\<open>except AttributeError: raise\<close> another exception.\<close>

definition import_failed :: "(string \<Rightarrow> exn) \<Rightarrow> exn \<Rightarrow> ('s, 'a) prog option" where
  "import_failed f e = (case e of ImportError m \<Rightarrow> Some (throw (f m)) | _ \<Rightarrow> None)"

definition attribute_missing :: "(string \<Rightarrow> exn) \<Rightarrow> exn \<Rightarrow> ('s, 'a) prog option" where
  "attribute_missing f e = (case e of AttributeError m \<Rightarrow> Some (throw (f m)) | _ \<Rightarrow> None)"

definition resolve_extension :: "('w, 'm, 't, 'x) host \<Rightarrow> string \<Rightarrow> (('w, 'z) io_scheme, 't) prog" where
  "resolve_extension h spec =
     (case spec_parts spec of (module_path, separator, class_name) \<Rightarrow>
       if \<not> separator \<or> module_path = [] \<or> class_name = []
       then throw (ValueError (entry_prefix spec @ '' is malformed: expected '' @ [single_quote]
              @ ''module.path:ClassName'' @ [single_quote]))
       else
         seq (attempt (import_module h module_path) (import_failed (\<lambda>m. ValueError (entry_prefix spec
                @ '' names a module that could not be imported: '' @ m)))) (\<lambda>module.
         seq (attempt (sys_try (h_getattr h module class_name)) (attribute_missing (\<lambda>m. ValueError
                (entry_prefix spec @ '' names '' @ py_repr class_name @ '', which module ''
                 @ py_repr module_path @ '' does not define'')))) (\<lambda>target.
         if \<not> h_is_extension h target
         then throw (ValueError (entry_prefix spec @ '' resolved to '' @ h_repr h target
                @ '', which is not a subclass of obsidian_vault_mcp.extensions.Extension''))
         else ret target)))"

text \<open>The entries of the variable that are not blank.\<close>

definition declared :: "string \<Rightarrow> string list" where
  "declared raw = filter (\<lambda>spec. spec \<noteq> []) (map strip (split_on (CHR '','') raw))"

definition load_extra_extensions :: "('w, 'm, 't, 'x) host \<Rightarrow> string \<Rightarrow> (('w, 'z) io_scheme, 'x list) prog" where
  "load_extra_extensions h raw =
     collect (declared raw) (\<lambda>spec. seq (resolve_extension h spec) (\<lambda>cls. sys_try (h_new h cls)))"

section \<open>The entry point\<close>

text \<open>How \<^verbatim>\<open>main\<close> ends: with an exit status, or in the server with a list of extensions.\<close>

datatype 'x hosted = GitSync | Extra 'x

datatype 'x outcome = Exited int | Served "'x hosted list"

definition main ::
  "'w env \<Rightarrow> ('w, 'm, 't, 'x) host \<Rightarrow> settings \<Rightarrow> string \<Rightarrow> ('w, 'z, 'x outcome) ext_prog" where
  "main env h cfg raw =
     andthen (new_extension cfg)
       (seq (attempt
               (seq (andthen (validate_gitsync env cfg) (load_extra_extensions h raw)) (\<lambda>extras. ret (Inr extras)))
               (\<lambda>e. case e of
                  ValueError m \<Rightarrow> Some (andthen (log Error (MInvalidConfig m)) (ret (Inl 1)))
                | _ \<Rightarrow> None))
         (\<lambda>r. case r of
            Inl code \<Rightarrow> ret (Exited code)
          | Inr extras \<Rightarrow>
              andthen (if extras \<noteq> [] then log Info (MLoading (map (h_qualname h) extras)) else ret ())
                (ret (Served (GitSync # map Extra extras)))))"

section \<open>Running over a list\<close>

lemma collect_returns:
  "collect xs f s = (Inr ys, s') \<Longrightarrow> list_all2 (\<lambda>x y. \<exists>t t'. f x t = (Inr y, t')) xs ys"
proof (induction xs arbitrary: s ys)
  case (Cons x xs)
  then obtain y zs t where "f x s = (Inr y, t)" "collect xs f t = (Inr zs, s')" "ys = y # zs"
    by (auto simp: seq_eq_Inr)
  with Cons.IH [of t zs] show ?case by auto
qed simp

text \<open>What raises is the first element that does, after everything before it has been gone through.\<close>

lemma collect_raises:
  "collect xs f s = (Inl e, s') \<Longrightarrow>
   \<exists>pre x post ys t. xs = pre @ x # post \<and> collect pre f s = (Inr ys, t) \<and> f x t = (Inl e, s')"
proof (induction xs arbitrary: s)
  case (Cons x xs)
  then consider (now) "f x s = (Inl e, s')" | (later) y t where "f x s = (Inr y, t)" "collect xs f t = (Inl e, s')"
    by (auto simp: seq_eq_Inl)
  then show ?case
  proof cases
    case now
    then show ?thesis by (intro exI [of _ "[]"] exI [of _ x] exI [of _ xs]) simp
  next
    case later
    from Cons.IH [OF later(2)] obtain pre x' post ys t' where
      "xs = pre @ x' # post" "collect pre f t = (Inr ys, t')" "f x' t' = (Inl e, s')" by blast
    with later(1) show ?thesis
      by (intro exI [of _ "x # pre"] exI [of _ x'] exI [of _ post] exI [of _ "y # ys"]) (simp add: seq_eq_Inr)
  qed
qed simp

lemma collect_trace:
  assumes "\<And>x t y t'. f x t = (Inr y, t') \<Longrightarrow> trace t' = trace t @ g x"
  shows "collect xs f s = (Inr ys, s') \<Longrightarrow> trace s' = trace s @ concat (map g xs)"
proof (induction xs arbitrary: s ys)
  case (Cons x xs)
  then obtain y zs t where "f x s = (Inr y, t)" "collect xs f t = (Inr zs, s')"
    by (auto simp: seq_eq_Inr)
  with Cons.IH [of t zs] assms [of x s y t] show ?case by simp
qed simp

section \<open>One entry\<close>

abbreviation module_of :: "string \<Rightarrow> string" where
  "module_of spec \<equiv> fst (spec_parts spec)"

definition load_entry :: "('w, 'm, 't, 'x) host \<Rightarrow> string \<Rightarrow> (('w, 'z) io_scheme, 'x) prog" where
  "load_entry h spec = seq (resolve_extension h spec) (\<lambda>cls. sys_try (h_new h cls))"

text \<open>
  What it takes to load an entry: both halves are there, the module is absolute and can be
  imported, it has the attribute, this is a subclass of the server's class, and calling it gives \<open>x\<close>.
\<close>

definition entry_loaded :: "('w, 'm, 't, 'x) host \<Rightarrow> string \<Rightarrow> 'x \<Rightarrow> bool" where
  "entry_loaded h spec x \<longleftrightarrow>
     (\<exists>m c module target w w1 w2 w3. spec_parts spec = (m, True, c) \<and> m \<noteq> [] \<and> c \<noteq> [] \<and>
        \<not> startswith m ''.'' \<and> h_import h m w = (Inr module, w1) \<and> h_getattr h module c w1 = (Inr target, w2) \<and>
        h_is_extension h target \<and> h_new h target w2 = (Inr x, w3))"

text \<open>Third-party code that fails only in the ways the package provides for.\<close>

definition host_answers :: "('w, 'm, 't, 'x) host \<Rightarrow> bool" where
  "host_answers h \<longleftrightarrow>
     (\<forall>n w e w'. h_import h n w = (Inl e, w') \<longrightarrow> (\<exists>m. e = ImportError m)) \<and>
     (\<forall>k n w e w'. h_getattr h k n w = (Inl e, w') \<longrightarrow> (\<exists>m. e = AttributeError m)) \<and>
     (\<forall>t w. \<exists>x w'. h_new h t w = (Inr x, w'))"

lemma host_answersD:
  assumes "host_answers h"
  shows "h_import h n w = (Inl e, w') \<Longrightarrow> \<exists>m. e = ImportError m"
    and "h_getattr h k n w = (Inl e, w') \<Longrightarrow> \<exists>m. e = AttributeError m"
    and "h_new h t w \<noteq> (Inl e, w')"
proof -
  obtain x u where "h_new h t w = (Inr x, u)" using assms unfolding host_answers_def by blast
  then show "h_new h t w \<noteq> (Inl e, w')" by simp
qed (use assms in \<open>unfold host_answers_def, blast+\<close>)

lemma reraised_Inr [simp]:
  "attempt m (import_failed f) s = (Inr x, s') \<longleftrightarrow> m s = (Inr x, s')"
  "attempt m (attribute_missing f) s = (Inr x, s') \<longleftrightarrow> m s = (Inr x, s')"
  by (auto simp: attempt_def import_failed_def attribute_missing_def split: prod.split sum.split option.splits exn.splits)

lemma reraised_Inl:
  "attempt m (import_failed f) s = (Inl e, s') \<Longrightarrow>
   \<exists>d. m s = (Inl d, s') \<and> e = (case d of ImportError k \<Rightarrow> f k | _ \<Rightarrow> d)"
  "attempt m (attribute_missing f) s = (Inl e, s') \<Longrightarrow>
   \<exists>d. m s = (Inl d, s') \<and> e = (case d of AttributeError k \<Rightarrow> f k | _ \<Rightarrow> d)"
  by (auto simp: attempt_eq import_failed_def attribute_missing_def split: exn.splits)

lemma sys_try_eq: "sys_try f s = (r, s') \<longleftrightarrow> (\<exists>w. f (world s) = (r, w) \<and> s' = s\<lparr>world := w\<rparr>)"
  by (auto simp: sys_try_def split: prod.splits)

lemma import_module_returns:
  "import_module h n s = (Inr k, s') \<longleftrightarrow>
   \<not> startswith n ''.'' \<and>
   (\<exists>w. h_import h n (world s) = (Inr k, w) \<and> s' = s\<lparr>trace := trace s @ [EImport n], world := w\<rparr>)"
  by (auto simp: import_module_def andthen_eq_Inr emit_def sys_try_eq)

lemma import_module_raises:
  assumes "host_answers h" and "import_module h n s = (Inl d, s')"
  shows "(\<exists>m. d = ImportError m) \<or> (startswith n ''.'' \<and> (\<exists>m. d = Raised ''TypeError'' m))"
  using assms(2) host_answersD(1) [OF assms(1)]
  by (auto simp: import_module_def andthen_eq_Inl emit_def sys_try_eq split: if_splits)

lemma load_entry_returns:
  assumes "load_entry h spec s = (Inr x, s')"
  shows "entry_loaded h spec x" and "trace s' = trace s @ [EImport (module_of spec)]"
proof -
  obtain m sep c where p: "spec_parts spec = (m, sep, c)" by (cases "spec_parts spec")
  with assms have ok: "sep" "m \<noteq> []" "c \<noteq> []"
    by (auto simp: load_entry_def resolve_extension_def split: if_splits)
  with assms p obtain module w1 target w2 w3 where run: "\<not> startswith m ''.''"
    "h_import h m (world s) = (Inr module, w1)" "h_getattr h module c w1 = (Inr target, w2)"
    "h_is_extension h target" "h_new h target w2 = (Inr x, w3)" "trace s' = trace s @ [EImport m]"
    by (auto simp: load_entry_def resolve_extension_def seq_eq_Inr import_module_returns sys_try_eq split: if_splits)
  from p run(6) show "trace s' = trace s @ [EImport (module_of spec)]" by simp
  from p ok(1) have "spec_parts spec = (m, True, c)" by simp
  with ok(2,3) run(1-5) show "entry_loaded h spec x" unfolding entry_loaded_def by blast
qed

lemma load_entry_raises:
  assumes "host_answers h" and "load_entry h spec s = (Inl e, s')"
  shows "(\<exists>m. e = ValueError (entry_prefix spec @ m)) \<or>
    (startswith (module_of spec) ''.'' \<and> (\<exists>m. e = Raised ''TypeError'' m))"
proof -
  obtain m sep c where p: "spec_parts spec = (m, sep, c)" by (cases "spec_parts spec")
  from assms(2) have r: "resolve_extension h spec s = (Inl e, s')"
    by (auto simp: load_entry_def seq_eq_Inl sys_try_eq host_answersD(3) [OF assms(1)])
  show ?thesis
  proof (cases "\<not> sep \<or> m = [] \<or> c = []")
    case True
    with r p show ?thesis by (auto simp: resolve_extension_def)
  next
    case False
    with r p consider
        (import) "attempt (import_module h m) (import_failed (\<lambda>k. ValueError (entry_prefix spec
            @ '' names a module that could not be imported: '' @ k))) s = (Inl e, s')"
      | (attribute) module t where "attempt (sys_try (h_getattr h module c)) (attribute_missing (\<lambda>k. ValueError
            (entry_prefix spec @ '' names '' @ py_repr c @ '', which module '' @ py_repr m
             @ '' does not define''))) t = (Inl e, s')"
      | (other) k where "e = ValueError (entry_prefix spec @ k)"
      by (auto simp: resolve_extension_def seq_eq_Inl split: if_splits)
    then show ?thesis
    proof cases
      case import
      from reraised_Inl(1) [OF import] obtain d where d: "import_module h m s = (Inl d, s')"
        "e = (case d of ImportError k \<Rightarrow> ValueError (entry_prefix spec
            @ '' names a module that could not be imported: '' @ k) | _ \<Rightarrow> d)" by blast
      from import_module_raises [OF assms(1) d(1)] d(2) p show ?thesis by auto
    next
      case attribute
      with reraised_Inl(2) [OF attribute] obtain d where d: "sys_try (h_getattr h module c) t = (Inl d, s')"
        "e = (case d of AttributeError k \<Rightarrow> ValueError (entry_prefix spec @ '' names '' @ py_repr c
            @ '', which module '' @ py_repr m @ '' does not define'') | _ \<Rightarrow> d)" by blast
      from d(1) obtain k where "d = AttributeError k"
        using host_answersD(2) [OF assms(1)] unfolding sys_try_eq by blast
      with d(2) show ?thesis by simp
    qed auto
  qed
qed

lemma load_as_entries: "load_extra_extensions h raw = collect (declared raw) (load_entry h)"
  by (simp add: load_extra_extensions_def load_entry_def [abs_def])

lemma split_on_all: "(\<forall>w \<in> set (split_on c s). \<forall>d \<in> set w. P d) \<longleftrightarrow> (\<forall>d \<in> set s. P d \<or> d = c)"
proof (induction s)
  case (Cons x s)
  then show ?case by (cases "split_on c s") auto
qed simp

text \<open>A value that holds nothing but white space and commas.\<close>

definition blank :: "string \<Rightarrow> bool" where
  "blank raw \<longleftrightarrow> list_all (\<lambda>c. py_space c \<or> c = CHR '','') raw"

lemma declared_Nil: "declared raw = [] \<longleftrightarrow> blank raw"
proof -
  have "declared raw = [] \<longleftrightarrow> (\<forall>w \<in> set (split_on (CHR '','') raw). strip w = [])"
    by (simp add: declared_def filter_empty_conv)
  also have "\<dots> \<longleftrightarrow> (\<forall>w \<in> set (split_on (CHR '','') raw). \<forall>c \<in> set w. py_space c)"
    by (simp only: strip_def strip_if_Nil_iff)
  finally show ?thesis by (simp only: split_on_all blank_def list_all_iff)
qed

text \<open>A list of entries that were all loaded.\<close>

lemma entries_loaded:
  assumes "collect specs (load_entry h) s = (Inr xs, s')"
  shows "list_all2 (entry_loaded h) specs xs"
    and "trace s' = trace s @ map (\<lambda>spec. EImport (module_of spec)) specs"
proof -
  show "list_all2 (entry_loaded h) specs xs"
    using collect_returns [OF assms] by (rule list_all2_mono) (blast intro: load_entry_returns(1))
  have "trace s' = trace s @ concat (map (\<lambda>spec. [EImport (module_of spec)]) specs)"
    using load_entry_returns(2) by (rule collect_trace [OF _ assms])
  then show "trace s' = trace s @ map (\<lambda>spec. EImport (module_of spec)) specs" by simp
qed

lemmas load_trace = entries_loaded [where specs = "declared raw", folded load_as_entries] for raw

text \<open>An entry with a relative module path is not reported: the error of the import system gets through.\<close>

lemma relative_entry_escapes:
  fixes h :: "('w, 'm, 't, 'x) host" and s :: "('w, 'z) ext_st_scheme"
  assumes "declared raw = spec # rest" and "spec_parts spec = (m, True, c)" and "startswith m ''.''" and "c \<noteq> []"
    and "\<not> is_enabled cfg"
  shows "\<exists>k. fst (main env h cfg raw s) = Inl (Raised ''TypeError'' k)"
proof -
  have "m \<noteq> []" using assms(3) by (auto simp: startswith_def)
  then obtain k where k: "load_entry h spec t = (Inl (Raised ''TypeError'' k), t)" for t :: "('w, 'z) ext_st_scheme"
    using assms(2-4)
    by (simp add: load_entry_def resolve_extension_def import_module_def import_failed_def attempt_def throw_def
        seq_def)
  have "andthen (validate_gitsync env cfg) (load_extra_extensions h raw) t = (Inl (Raised ''TypeError'' k), t)"
    for t :: "('w, 'z) ext_st_scheme"
    using assms(1,5) k by (simp add: load_as_entries validate_gitsync_def andthen_def seq_def)
  then show ?thesis
    by (simp add: main_def new_extension_def modify_def andthen_def seq_def attempt_def)
qed

section \<open>Properties\<close>

text \<open>
  Nothing declared, nothing imported. Loading is explicit opt-in: exactly when the variable is empty or
  consists of white space and commas it declares no entry, and then loading returns no extension and
  does nothing at all.
\<close>

theorem nothing_declared:
  "(blank raw \<longleftrightarrow> declared raw = []) \<and>
   (blank raw \<longrightarrow> load_extra_extensions h raw s = (Inr [], s))"
  by (simp add: declared_Nil [symmetric] load_extra_extensions_def)

text \<open>
  C26: What is declared is loaded, in order and completely. When loading returns, it has one object for each
  declared entry, in the order of the declaration and without dropping a repeated one; each was
  built by calling the named attribute of the named module, a subclass of the server's class; and the
  modules that were imported are the named ones, once per entry, in the same order.
\<close>

theorem declared_are_loaded:
  assumes "load_extra_extensions h raw s = (Inr xs, s')"
  shows "list_all2 (entry_loaded h) (declared raw) xs \<and>
    new_effects s s' = map (\<lambda>spec. EImport (module_of spec)) (declared raw)"
  using load_trace [OF assms] by (simp add: new_effects_eq)

text \<open>
  C29: The offending entry is named. Let the declared modules fail only by \<^verbatim>\<open>ImportError\<close> and their attributes only
  by \<^verbatim>\<open>AttributeError\<close>, and let no constructor raise. When loading fails, the declared entries before some
  entry have all been loaded and their modules, and no others, been imported before it, this entry is the one that could
  not be resolved, and the error is a \<^verbatim>\<open>ValueError\<close> whose message starts with the name of the
  variable and just this entry as it was written, or, if its module path is relative, the \<^verbatim>\<open>TypeError\<close> of the
  import system.
\<close>

theorem bad_entry_is_named:
  fixes s :: "('w, 'z) io_scheme"
  assumes "host_answers h" and "load_extra_extensions h raw s = (Inl e, s')"
  shows "\<exists>pre spec post xs t. declared raw = pre @ spec # post \<and> collect pre (load_entry h) s = (Inr xs, t) \<and>
    list_all2 (entry_loaded h) pre xs \<and> new_effects s t = map (\<lambda>spec. EImport (module_of spec)) pre \<and>
    resolve_extension h spec t = (Inl e, s') \<and>
    ((\<exists>m. e = ValueError (''VAULT_MCP_EXTENSIONS entry '' @ py_repr spec @ m)) \<or>
     (startswith (module_of spec) ''.'' \<and> (\<exists>m. e = Raised ''TypeError'' m)))"
proof -
  obtain pre spec post xs and t :: "('w, 'z) io_scheme" where 1: "declared raw = pre @ spec # post"
    "collect pre (load_entry h) s = (Inr xs, t)" and 2: "load_entry h spec t = (Inl e, s')"
    using collect_raises [OF assms(2) [unfolded load_as_entries]] by blast
  have "resolve_extension h spec t = (Inl e, s')"
    using 2 by (auto simp: load_entry_def seq_eq_Inl sys_try_eq host_answersD(3) [OF assms(1)])
  moreover have "new_effects s t = map (\<lambda>spec. EImport (module_of spec)) pre"
    by (rule new_effects_eq) (rule entries_loaded(2) [OF 1(2)])
  ultimately show ?thesis
    using 1 entries_loaded(1) [OF 1(2)] load_entry_raises [OF assms(1) 2]
    unfolding entry_prefix_def append_assoc by blast
qed

text \<open>The block that the entry point guards, and how its three ends become those of the process.\<close>

abbreviation startup_checks ::
  "'w env \<Rightarrow> ('w, 'm, 't, 'x) host \<Rightarrow> settings \<Rightarrow> string \<Rightarrow> ('w, 'z, 'x list) ext_prog" where
  "startup_checks env h cfg raw \<equiv> andthen (validate_gitsync env cfg) (load_extra_extensions h raw)"

lemma main_ends:
  assumes "main env h cfg raw s = (r, s')"
  obtains
    (refused) m t where "r = Inr (Exited 1)" "trace s' = trace t @ [ELog Error (MInvalidConfig m)]"
      "startup_checks env h cfg raw (fresh cfg s) = (Inl (ValueError m), t)"
  | (escaped) e where "r = Inl e" "\<And>m. e \<noteq> ValueError m" "startup_checks env h cfg raw (fresh cfg s) = (Inl e, s')"
  | (served) ys t where "r = Inr (Served (GitSync # map Extra ys))"
      "startup_checks env h cfg raw (fresh cfg s) = (Inr ys, t)"
      "trace s' = trace t @ (if ys = [] then [] else [ELog Info (MLoading (map (h_qualname h) ys))])"
proof -
  have new: "new_extension cfg s = (Inr (), fresh cfg s)"
    by (simp add: new_extension_def modify_def fresh_def new_queue_def)
  obtain q t where q: "startup_checks env h cfg raw (fresh cfg s) = (q, t)"
    by (cases "startup_checks env h cfg raw (fresh cfg s)")
  note run = main_def andthen_def [of "new_extension cfg"] andthen_def [of "emit _"] andthen_def [of "if _ then _ else _"]
    seq_def attempt_def emit_def ret_def
  consider (invalid) m where "q = Inl (ValueError m)" | (other) e where "q = Inl e" "\<And>m. e \<noteq> ValueError m" | (loaded) ys where "q = Inr ys"
    by (cases q) auto
  then show thesis
  proof cases
    case (invalid m)
    with assms new q show ?thesis by (intro refused [of t m]) (auto simp: run)
  next
    case (other e)
    with assms new q show ?thesis by (intro escaped [of e]) (auto simp: run split: exn.splits)
  next
    case (loaded ys)
    with assms new q show ?thesis by (intro served [of ys t]) (auto simp: run split: if_splits)
  qed
qed

text \<open>The questions that validation asks before anything is imported.\<close>

definition validation_effects :: "settings \<Rightarrow> effect list" where
  "validation_effects cfg =
     (if \<not> is_enabled cfg then []
      else (if cfg_remote cfg = [] then [] else [EGit (get_url_argv cfg) (Some 0)]) @ [EGit (ident_argv cfg) (Some 0)])"

text \<open>
  C14: The entry point fails closed. However it ends, it hands a list to the server only when validation let the
  configuration pass and every declared extension was loaded: the git-sync extension first, the declared ones behind it
  in order; and what it has done by then is, in this order, the questions of validation, the named imports,
  and one log line if there are extras. It exits, with status 1, exactly when validation or loading raised a
  \<^verbatim>\<open>ValueError\<close>, and the last thing it does then is to log its message. Any other exception of the two (of a relative
  module path, of a missing git, of a module that does not import) is not caught: it leaves the entry point as it
  is, with nothing logged and nothing served.
\<close>

theorem main_fails_closed:
  assumes "main env h cfg raw s = (r, s')"
  shows "case r of
      Inr (Served xs) \<Rightarrow> \<exists>ys t. startup_checks env h cfg raw (fresh cfg s) = (Inr ys, t) \<and>
        xs = GitSync # map Extra ys \<and> list_all2 (entry_loaded h) (declared raw) ys \<and>
        (is_enabled cfg \<longrightarrow> accepted cfg) \<and>
        new_effects s s' = validation_effects cfg @ map (\<lambda>spec. EImport (module_of spec)) (declared raw)
          @ (if ys = [] then [] else [ELog Info (MLoading (map (h_qualname h) ys))])
    | Inr (Exited n) \<Rightarrow> n = 1 \<and>
        (\<exists>m t. startup_checks env h cfg raw (fresh cfg s) = (Inl (ValueError m), t) \<and>
           trace s' = trace t @ [ELog Error (MInvalidConfig m)])
    | Inl e \<Rightarrow> (\<forall>m. e \<noteq> ValueError m) \<and> startup_checks env h cfg raw (fresh cfg s) = (Inl e, s')"
  using assms
proof (cases rule: main_ends)
  case (served ys t)
  then obtain s1 where v: "validate_gitsync env cfg (fresh cfg s) = (Inr (), s1)"
    and l: "load_extra_extensions h raw s1 = (Inr ys, t)"
    by (auto simp: andthen_eq_Inr)
  have "(is_enabled cfg \<longrightarrow> accepted cfg) \<and> trace s1 = trace s @ validation_effects cfg"
  proof (cases "is_enabled cfg")
    case True
    with validate_trace [OF v True] validate_enabled_returned [OF v True] show ?thesis
      by (auto simp: validation_effects_def fresh_def)
  next
    case False
    with v show ?thesis by (simp add: validate_gitsync_def validation_effects_def fresh_def)
  qed
  then have acc: "is_enabled cfg \<longrightarrow> accepted cfg" and t1: "trace s1 = trace s @ validation_effects cfg" by simp_all
  have "new_effects s s' = validation_effects cfg @ map (\<lambda>spec. EImport (module_of spec)) (declared raw)
      @ (if ys = [] then [] else [ELog Info (MLoading (map (h_qualname h) ys))])"
    by (rule new_effects_eq) (simp only: served(3) load_trace(2) [OF l] t1 append_assoc)
  with served load_trace(1) [OF l] acc show ?thesis
    unfolding served(1) sum.case outcome.case by (intro exI [of _ ys] exI [of _ t] conjI) (rule refl | assumption)+
qed simp_all

end
