(* ===== verification/WorkerExamples.thy ===== *)
theory WorkerExamples
  imports WorkerHealth
begin

text \<open>
  The theorems about the worker at work: one configuration, and three machines on which every git
  command succeeds, on which every one fails, and on which their outcomes are scripted.
\<close>

definition example_git :: git_conf where
  "example_git = \<lparr>vault = \<lparr>root = ''/'', parts = [''v'']\<rparr>, timeout = DEFAULT_TIMEOUT,
     git_author_name = Some ''Me'', git_author_email = None, credential_helper = Some HELPER_NAME\<rparr>"

definition example_conf :: worker_conf where
  "example_conf = \<lparr>git = example_git, remote = ''origin'', branch = ''main'', push_debounce = Fin 10,
     push_max_interval = Fin 300, heartbeat_url = ''''\<rparr>"

definition exiting_env :: "int \<Rightarrow> script env" where
  "exiting_env k = script_env\<lparr>x_run := \<lambda>argv w. (Inr (k, '''', ''''), w)\<rparr>"

definition example_state :: "script worker_st" where
  "example_state = \<lparr>world = script0, trace = [], git_dir_cache = Some (path_of ''/v/.git''),
     unpushed = False, last_push = Fin 0, degraded_rc = None\<rparr>"

definition example_sweep :: sync_event where
  "example_sweep = sync_sweep ''timer''"

lemma exiting_env_simps [simp]:
  "x_run (exiting_env k) argv w = (Inr (k, '''', ''''), w)"
  "x_monotonic (exiting_env k) w = (sc_mono w, w)"
  "x_utcnow (exiting_env k) w = (sc_utc w, w)"
  by (simp_all add: exiting_env_def)

lemma exiting_answers: "git_answers (exiting_env k)"
  by (simp add: git_answers_def)

lemma exiting_exits: "always_exits (exiting_env k) argv k"
  by (simp add: always_exits_def)

text \<open>A sweep whose commands are \<^verbatim>\<open>add\<close>, \<^verbatim>\<open>diff\<close> twice (there is something to commit) and \<^verbatim>\<open>commit\<close>.\<close>

definition commit_state :: "script worker_st" where
  "commit_state = example_state\<lparr>world := script0\<lparr>sc_runs :=
     [Inr (0, '''', ''''), Inr (1, '''', ''''), Inr (1, '''', ''''), Inr (0, '''', '''')]\<rparr>\<rparr>"

lemma example_branch_names [simp]:
  "git example_conf = example_git" "remote example_conf = ''origin''" "branch example_conf = ''main''"
  "heartbeat_url example_conf = ''''"
  by (simp_all add: example_conf_def)

lemmas worker_eval =
  handle_event_def handle_sync_sweep_def sweep_message_def now_utc_def stage_and_commit_def timed_def
  has_staged_def add_all_def commit_def run_git_eq record_clean_def record_failure_def andthen_def seq_def
  attempt_def gets_def modify_def emit_def sys_def ret_def ok_def Let_def example_sweep_def sync_sweep_def

lemma commit_run:
  "\<exists>s'. handle_event script_env line_yaml example_settings example_conf example_sweep commit_state = (Inr (), s') \<and>
     cmds (trace s') = [(''add'', Some 0), (''diff'', Some 1), (''diff'', Some 1), (''commit'', Some 0)] \<and>
     unpushed s' \<and> \<not> degraded s'"
  by (simp add: worker_eval commit_state_def example_state_def script0_def cmds_def subcommand_def degraded_def
      kinds_differ)

theorem event_cycle_witness:
  "\<exists>s' clean commits. handle_event script_env line_yaml example_settings example_conf example_sweep commit_state = (Inr (), s') \<and>
     cycle_shape (cmds (new_effects commit_state s')) clean commits \<and> (unpushed s' \<longleftrightarrow> unpushed commit_state \<or> commits)"
proof -
  obtain r s' where run:
    "handle_event script_env line_yaml example_settings example_conf example_sweep commit_state = (r, s')"
    by (cases "handle_event script_env line_yaml example_settings example_conf example_sweep commit_state")
  moreover have "kind example_sweep = SYNC_SWEEP" by (simp add: example_sweep_def sync_sweep_def)
  ultimately show ?thesis using event_cycle [OF run] by blast
qed

definition pending_state :: "script worker_st" where
  "pending_state = example_state\<lparr>unpushed := True,
     trace := [EGit (git_argv example_git [''commit'', ''-m'', ''sync'']) (Some 0)]\<rparr>"

theorem push_protocol_witness:
  "\<exists>s'. maybe_push (exiting_env 0) example_conf pending_state = (Inr (), s') \<and>
     (unpushed s' \<longleftrightarrow> \<not> push_succeeded (cmds (new_effects pending_state s')))"
proof -
  obtain r s' where run: "maybe_push (exiting_env 0) example_conf pending_state = (r, s')"
    by (cases "maybe_push (exiting_env 0) example_conf pending_state")
  then show ?thesis using push_protocol [OF run] by (auto simp: pending_state_def)
qed

theorem quiet_window_delivers_witness:
  "\<exists>s'. run_iteration (exiting_env 0) line_yaml example_settings example_conf None pending_state = (Inr (), s') \<and>
     \<not> unpushed s'"
proof -
  obtain r s' where run:
    "run_iteration (exiting_env 0) line_yaml example_settings example_conf None pending_state = (r, s')"
    by (cases "run_iteration (exiting_env 0) line_yaml example_settings example_conf None pending_state")
  moreover have "r = Inr ()"
    using run push_protocol [of "exiting_env 0" example_conf pending_state r s'] by (simp add: run_iteration_def)
  moreover have "\<not> unpushed s'"
    using quiet_window_delivers [OF exiting_answers exiting_exits _ _ _ run]
    by (simp add: pending_state_def)
  ultimately show ?thesis by blast
qed

lemma failed_push_run:
  "\<exists>s'. worker_run (exiting_env 1) line_yaml example_settings example_conf [None] pending_state = (Inr (), s') \<and>
     owes (cmds (trace s'))"
  by (simp add: worker_run_def run_iteration_def maybe_push_def push_once_def resolve_branch_def
      sync_remote_def fetch_def push_def run_git_eq andthen_def seq_def attempt_def gets_def emit_def ret_def ok_def
      pending_state_def example_state_def cmds_def subcommand_def owes_def owes_step_def)

theorem no_commit_forgotten_witness:
  "\<exists>s'. worker_run (exiting_env 1) line_yaml example_settings example_conf [None] pending_state = (Inr (), s') \<and>
     unpushed s'"
proof -
  obtain s' where run: "worker_run (exiting_env 1) line_yaml example_settings example_conf [None] pending_state = (Inr (), s')"
    "owes (cmds (trace s'))" using failed_push_run by blast
  moreover have "owes (cmds (trace pending_state)) \<longrightarrow> unpushed pending_state"
    by (simp add: pending_state_def)
  ultimately show ?thesis using no_commit_forgotten [OF _ run] by blast
qed

definition local_conf :: worker_conf where
  "local_conf = example_conf\<lparr>remote := ''''\<rparr>"

lemma local_run:
  "\<exists>s'. worker_run (exiting_env 0) line_yaml example_settings local_conf [Some example_sweep] example_state = (Inr (), s') \<and>
     EGit (git_argv example_git [''add'', ''-A'']) (Some 0) \<in> set (new_effects example_state s')"
  by (simp add: worker_run_def run_iteration_def worker_eval push_overdue_def maybe_push_def
      local_conf_def example_conf_def example_state_def script0_def new_effects_def kinds_differ)

theorem commit_only_stays_local_witness:
  "remote local_conf = '''' \<and> local_effect (EGit (git_argv example_git [''add'', ''-A'']) (Some 0))"
proof -
  have "remote local_conf = ''''" by (simp add: local_conf_def)
  then show ?thesis using local_run commit_only_stays_local by blast
qed

lemma two_failures_run:
  "\<exists>s'. foreach [(''sweep stage'', Rc 128), (''mcp stage'', Rc 128)]
     (\<lambda>f. record_failure script_env example_conf (fst f) (snd f)) example_state = (Inr (), s')"
  by (simp add: worker_eval lock_note_def git_dir_def describe_present_def find_locks_def glob_locks_def
      rglob_locks_def example_state_def script0_def script_env_def sys_try_def not_found_def except_os_def)

theorem one_warning_per_streak_witness:
  "\<exists>s'. foreach [(''sweep stage'', Rc 128), (''mcp stage'', Rc 128)]
     (\<lambda>f. record_failure script_env example_conf (fst f) (snd f)) example_state = (Inr (), s') \<and>
     warnings (new_effects example_state s') = 1 \<and> degraded_rc s' = Some (Rc 128)"
proof -
  obtain s' where run: "foreach [(''sweep stage'', Rc 128), (''mcp stage'', Rc 128)]
     (\<lambda>f. record_failure script_env example_conf (fst f) (snd f)) example_state = (Inr (), s')"
    using two_failures_run by blast
  from one_warning_per_streak [OF run] run show ?thesis by (simp add: example_state_def)
qed

theorem token_stays_out_witness:
  "from_config (example_settings\<lparr>VAULT_GIT_TOKEN := ''other''\<rparr>) = from_config example_settings"
proof -
  have "strip ''other'' = [] \<longleftrightarrow> token example_settings = []"
  proof -
    have "strip ''other'' = ''other''" by code_simp
    then show ?thesis by (simp add: example_raw)
  qed
  from token_stays_out [OF refl this] show ?thesis by blast
qed

end
