(* ===== verification/SystemExamples.thy ===== *)
theory SystemExamples
  imports Hosting SystemRuns WorkerExamples
begin

text \<open>
  The theorems about the running system and the entry point at work: a machine on which every command
  succeeds except the push, with something to commit whenever it is asked; a process that is
  launched, started, given one event and told to stop; and a server with two modules to import.
\<close>

section \<open>A machine whose pushes are refused\<close>

definition demo_env :: "script env" where
  "demo_env = script_env\<lparr>x_run := \<lambda>argv w.
     (Inr (if subcommand argv = ''diff'' \<or> subcommand argv = ''push'' then 1 else 0, ''main'', ''''), w)\<rparr>"

definition demo_process :: "script ext_st" where
  "demo_process = \<lparr>world = example_checkout, trace = [], git_dir_cache = None, unpushed = False, last_push = Fin 0,
     degraded_rc = None, enabled = False, events = [], timer_stop = False, timer = None, worker = None,
     worker_stop = False, worker_thread = NotStarted, write_listener = False, change_listener = False\<rparr>"

lemma demo_answers: "git_answers demo_env"
  by (simp add: git_answers_def demo_env_def)

lemma demo_env_simps [simp]:
  "x_run demo_env argv w =
     (Inr (if subcommand argv = ''diff'' \<or> subcommand argv = ''push'' then 1 else 0, ''main'', ''''), w)"
  "x_monotonic demo_env w = (sc_mono w, w)"
  "x_utcnow demo_env w = (sc_utc w, w)"
  "x_is_dir demo_env = x_is_dir script_env" "x_exists demo_env = x_exists script_env"
  by (simp_all add: demo_env_def)

lemma demo_url: "urlsplit (strip ''main'') = Inr \<lparr>scheme = '''', netloc = ''''\<rparr>"
proof -
  have "strip ''main'' = ''main''" by code_simp
  then show ?thesis by (simp add: url_eval)
qed

lemma demo_validates:
  assumes "world s = example_checkout"
  shows "fst (validate_gitsync demo_env example_settings s) = Inr ()"
proof -
  have "subcommand (get_url_argv example_settings) = ''remote''"
    by (simp add: subcommand_def get_url_argv_def numeral_3_eq_3)
  moreover have "subcommand (ident_argv example_settings) = ''var''"
    by (simp add: subcommand_def ident_argv_def numeral_3_eq_3)
  ultimately show ?thesis
    using assms
    by (simp add: validate_gitsync_def example_raw andthen_def seq_def check_vault_def sys_def
        script_env_def example_git_path example_vault_path Let_def example_interval example_heartbeat eval_float_10
        eval_float_300 check_remote_def run_process_def example_checkout_def get_url_argv_def ident_argv_def
        script0_def demo_url needs_token_def lower_def check_identity_def ret_def)
qed

lemma demo_launch: "\<exists>s. launch demo_env example_settings demo_process = (Inr (), s)"
proof (cases "launch demo_env example_settings demo_process" rule: prod.exhaust)
  case (Pair r s)
  then show ?thesis
  proof (cases rule: launch_cases)
    case (refused e)
    have "world (fresh example_settings demo_process) = example_checkout" by (simp add: fresh_def demo_process_def)
    from demo_validates [OF this] refused(2) show ?thesis by simp
  qed (use Pair in simp_all)
qed

lemmas demo_eval =
  run_iteration_def worker_eval push_overdue_def maybe_push_def push_once_def resolve_branch_def current_branch_def
  sync_remote_def rebase_part_def fetch_def rebase_theirs_def push_def subcommand_def cmds_def owes_def owes_step_def

text \<open>Whatever the worker and its state: a sweep commits, and its push, if it is due, is refused.\<close>

lemma demo_subcommands [simp]:
  "subcommand (git_argv g [''add'', ''-A'']) = ''add''"
  "subcommand (git_argv g [''diff'', ''--cached'', ''--quiet'']) = ''diff''"
  "subcommand (git_argv g (identity_args g @ [''commit'', ''-m'', m])) = ''commit''"
  "subcommand (git_argv g (credential_args g @ [''fetch'', r])) = ''fetch''"
  "subcommand (git_argv g (credential_args g @ [''push'', r, b])) = ''push''"
  "subcommand (git_argv g [''rebase'', ''-X'', ''theirs'', u]) = ''rebase''"
  "subcommand (git_argv g [''rev-parse'', ''--abbrev-ref'', ''HEAD'']) = ''rev-parse''"
  by (simp_all add: subcommand_def)

lemma demo_event:
  "\<exists>s'. handle_event demo_env line_yaml cfg c example_sweep s = (Inr (), s') \<and>
     owes (cmds (trace s'))"
  by (cases "degraded_rc s") (simp_all add: worker_eval cmds_def owes_def owes_step_def)

lemma demo_push:
  assumes "owes (cmds (trace s))"
  shows "\<exists>s'. maybe_push demo_env c s = (Inr (), s') \<and> owes (cmds (trace s'))"
  using assms
  by (simp add: maybe_push_def push_once_def resolve_branch_def current_branch_def sync_remote_def
      rebase_part_def fetch_def rebase_theirs_def push_def run_git_eq andthen_def seq_def attempt_def gets_def
      emit_def ret_def ok_def Let_def cmds_def owes_def owes_step_def)

lemma demo_round:
  assumes "run_iteration demo_env line_yaml cfg c (Some example_sweep) s = (r, s')"
  shows "owes (cmds (trace s'))"
  using assms
proof (cases rule: run_iteration_cases)
  case (event ev s1 w)
  with demo_event [of cfg c s] show ?thesis by auto
next
  case (busy ev s1 w)
  with demo_event [of cfg c s] have "owes (cmds (trace (s1\<lparr>world := w\<rparr>)))" by auto
  from demo_push [OF this, of c] busy(3) show ?thesis by auto
qed simp

section \<open>A life of the system\<close>

lemma from_config_debounce: "from_config cfg = Some c \<Longrightarrow> cfg_push_debounce cfg = Some (push_debounce c)"
  by (auto simp: from_config_def split: option.splits)

lemma example_config:
  obtains c where "from_config example_settings = Some c" "push_debounce c = Fin 10"
proof -
  have d: "cfg_push_debounce example_settings = Some (Fin 10)" "cfg_push_max_interval example_settings = Some (Fin 300)"
    by (simp_all add: cfg_push_debounce_def cfg_push_max_interval_def example_raw eval_float_10 eval_float_300)
  then obtain c where c: "from_config example_settings = Some c" by (auto simp: from_config_def)
  with d from_config_debounce [OF c] show thesis by (intro that [of c]) simp_all
qed

lemma example_sweep_interval: "sweep_interval example_settings = Some 60"
  by code_simp

definition demo_labels :: "label list" where
  "demo_labels = [Start, Tick, Check, Consume example_sweep, Signal, Check]"

lemma demo_start:
  assumes "launch env cfg s0 = (Inr (), s)"
    and "from_config cfg = Some c" and "is_enabled cfg" and "sweep_interval cfg = Some 60"
  shows "\<exists>s'. sys_step env line_yaml cfg s Start s' \<and> events s' = [] \<and> \<not> timer_stop s' \<and>
    \<not> worker_stop s' \<and> worker s' = Some c \<and> worker_thread s' = Checking \<and> timer s' = Some 60"
proof -
  note f = launched_fields [OF assms(1)]
  have on: "enabled s" using f(6) assms(3) by simp
  obtain s' where run: "after_indexes_start env cfg s = (Inr (), s')"
    using start_returns [OF on assms(2,4)] by blast
  then have "sys_step env line_yaml cfg s Start s'" using f by (intro do_start) simp_all
  moreover from run have "events s' = [] \<and> \<not> timer_stop s' \<and> \<not> worker_stop s' \<and> worker s' = Some c \<and>
      worker_thread s' = Checking \<and> timer s' = Some 60"
  proof (cases rule: start_cases)
    case (on c' n s1 s2)
    with start_on_fields [OF on(7,8,4,5,9)] f assms(2,4) show ?thesis by simp
  qed (use on in simp)
  ultimately show ?thesis by blast
qed

lemma demo_work:
  assumes "events s = []" "\<not> timer_stop s" "\<not> worker_stop s" "worker s = Some c" "worker_thread s = Checking"
    "timer s = Some n" "push_debounce c = Fin 10"
  shows "\<exists>s'. runs (sys_step demo_env line_yaml cfg) s [Tick, Check, Consume example_sweep] s' \<and>
    owes (cmds (trace s')) \<and> worker s' = Some c \<and> worker_thread s' = Checking \<and> events s' = []"
proof -
  let ?step = "sys_step demo_env line_yaml cfg"
  define s1 where "s1 = s\<lparr>events := [example_sweep]\<rparr>"
  define s2 where "s2 = s1\<lparr>worker_thread := Blocked\<rparr>"
  have "?step s Tick s1"
    using assms by (simp add: step_simps sweep_tick_def s1_def seq_def gets_def andthen_def enqueue_def modify_def
        put_def ret_def example_sweep_def)
  moreover have "?step s1 Check s2"
    using assms by (simp add: step_simps check_stop_def modify_def s1_def s2_def)
  moreover obtain s3 where c: "consume demo_env line_yaml cfg c (Some example_sweep) [] s2 = (Inr (), s3)"
    using consume_returns by blast
  moreover have "wait_get (events s2) (push_debounce c) [0] = Item example_sweep []" "clock_looks [0]"
    using assms(7) by (simp_all add: s1_def s2_def get_head clock_looks_def)
  ultimately have "runs ?step s ([] @ [Tick] @ [Check] @ [Consume example_sweep]) s3"
    using assms by (intro runs_append runs_one runs_start do_consume [where looks = "[0]"]) (simp_all add: s1_def s2_def runs_Nil get_head)
  moreover have "owes (cmds (trace s3)) \<and> worker s3 = Some c \<and> worker_thread s3 = Checking \<and> events s3 = []"
  proof -
    obtain s4 where i: "run_iteration demo_env line_yaml cfg c (Some example_sweep) (s2\<lparr>events := []\<rparr>)
        = (Inr (), s4)" "s3 = s4\<lparr>worker_thread := Checking\<rparr>" "worker_st.more s4 = worker_st.more (s2\<lparr>events := []\<rparr>)"
      using consume_run [OF c] by blast
    from demo_round [OF i(1)] ext_fields [OF i(3)] i(2) assms(4) show ?thesis by (simp add: s1_def s2_def)
  qed
  ultimately show ?thesis by auto
qed

text \<open>The whole life, from the launch to the thread that has ended.\<close>

lemma demo_stop:
  assumes "worker s = Some c" "worker_thread s = Checking"
  shows "\<exists>s'. runs (sys_step env y cfg) s [Signal, Check] s' \<and> worker_thread s' = Ended \<and>
    trace s' = trace s \<and> events s' = events s \<and> worker_stop s' \<and> timer_stop s'"
proof -
  define s1 where "s1 = s\<lparr>timer_stop := True, worker_stop := True\<rparr>"
  have "sys_step env y cfg s Signal s1"
    using assms by (simp add: step_simps signal_shutdown_def s1_def andthen_def seq_def gets_def modify_def)
  moreover have "sys_step env y cfg s1 Check (s1\<lparr>worker_thread := Ended\<rparr>)"
    using assms by (simp add: step_simps check_stop_def modify_def s1_def)
  ultimately have "runs (sys_step env y cfg) s ([Signal] @ [Check]) (s1\<lparr>worker_thread := Ended\<rparr>)"
    by (intro runs_append runs_one)
  then show ?thesis by (auto simp: s1_def)
qed

lemma demo_life:
  obtains s s' where "launch demo_env example_settings demo_process = (Inr (), s)"
    "runs (sys_step demo_env line_yaml example_settings) s demo_labels s'" "owes (cmds (trace s'))" "events s' = []"
proof -
  obtain s where s: "launch demo_env example_settings demo_process = (Inr (), s)" using demo_launch by blast
  obtain c where c: "from_config example_settings = Some c" "push_debounce c = Fin 10" by (rule example_config)
  obtain s1 where 1: "sys_step demo_env line_yaml example_settings s Start s1" "events s1 = []" "\<not> timer_stop s1"
    "\<not> worker_stop s1" "worker s1 = Some c" "worker_thread s1 = Checking" "timer s1 = Some 60"
    using demo_start [OF s c(1) example_raw(8) example_sweep_interval] by blast
  obtain s2 where 2: "runs (sys_step demo_env line_yaml example_settings) s1 [Tick, Check, Consume example_sweep] s2"
    "owes (cmds (trace s2))" "worker s2 = Some c" "worker_thread s2 = Checking" "events s2 = []"
    using demo_work [OF 1(2-7) c(2)] by blast
  obtain s3 where 3: "runs (sys_step demo_env line_yaml example_settings) s2 [Signal, Check] s3"
    "trace s3 = trace s2" "events s3 = events s2"
    using demo_stop [OF 2(3,4)] by blast
  have "runs (sys_step demo_env line_yaml example_settings) s
      ([Start] @ ([Tick, Check, Consume example_sweep] @ [Signal, Check])) s3"
    by (rule runs_append [OF runs_append [OF 3(1) 2(1)]], rule runs_one, rule 1(1))
  then have "runs (sys_step demo_env line_yaml example_settings) s demo_labels s3" by (simp add: demo_labels_def)
  with s 2(2,5) 3(2,3) show thesis by (intro that [of s s3]) simp_all
qed

section \<open>Witnesses\<close>

theorem system_keeps_commits_witness:
  "\<exists>s s'. runs (sys_step demo_env line_yaml example_settings) s demo_labels s' \<and> unpushed s' \<and> worker s' \<noteq> None"
proof -
  obtain s s' where "launch demo_env example_settings demo_process = (Inr (), s)"
    "runs (sys_step demo_env line_yaml example_settings) s demo_labels s'" "owes (cmds (trace s'))"
    by (rule demo_life)
  moreover have "trace demo_process = []" by (simp add: demo_process_def)
  ultimately show ?thesis using system_keeps_commits by blast
qed

theorem system_refines_ledger_witness:
  "\<exists>a a'. runs ledger_step a demo_labels a' \<and> l_queue a' = []"
proof -
  obtain s s' where r: "runs (sys_step demo_env line_yaml example_settings) s demo_labels s'" "events s' = []"
    by (rule demo_life)
  from system_refines_ledger [OF r(1)] r(2) show ?thesis by (metis ledger_fields(1))
qed

theorem events_in_order_witness:
  "produced demo_labels = handled demo_labels"
proof -
  obtain s s' where s: "launch demo_env example_settings demo_process = (Inr (), s)"
    and r: "runs (sys_step demo_env line_yaml example_settings) s demo_labels s'" "events s' = []"
    by (rule demo_life)
  from events_in_order [OF r(1)] r(2) launched_fields(1) [OF s] show ?thesis by simp
qed

theorem events_well_formed_witness: "list_all wf_event (handled demo_labels)"
proof -
  obtain s s' where s: "launch demo_env example_settings demo_process = (Inr (), s)"
    and r: "runs (sys_step demo_env line_yaml example_settings) s demo_labels s'" "events s' = []"
    by (rule demo_life)
  have "list_all wf_event (events s)" using launched_fields(1) [OF s] by simp
  from events_well_formed [OF this r(1)] r(2) show ?thesis by simp
qed

text \<open>A worker that waits, with an event in its queue, when the stop flags are set.\<close>

definition stopping_process :: "script ext_st" where
  "stopping_process = demo_process\<lparr>enabled := True, worker := Some example_conf, worker_thread := Blocked,
     events := [example_sweep], timer_stop := True, worker_stop := True\<rparr>"

lemma stopping_run:
  "\<exists>s'. runs (sys_step demo_env line_yaml example_settings) stopping_process [Consume example_sweep] s' \<and>
     worker_thread s' = Checking"
proof -
  obtain s' where c: "consume demo_env line_yaml example_settings example_conf (Some example_sweep) [] stopping_process
      = (Inr (), s')"
    using consume_returns by blast
  have "wait_get (events stopping_process) (push_debounce example_conf) [0] = Item example_sweep []" "clock_looks [0]"
    by (simp_all add: stopping_process_def example_conf_def get_def clock_looks_def)
  with c have "sys_step demo_env line_yaml example_settings stopping_process (Consume example_sweep) s'"
    by (intro do_consume [where looks = "[0]"]) (simp_all add: stopping_process_def)
  then have "runs (sys_step demo_env line_yaml example_settings) stopping_process [Consume example_sweep] s'"
    by (rule runs_one)
  moreover have "worker_thread s' = Checking" using consume_run [OF c] by auto
  ultimately show ?thesis by blast
qed

theorem shutdown_ends_witness: "rounds [Consume example_sweep] + rank Checking \<le> rank Blocked"
proof -
  obtain s' where r: "runs (sys_step demo_env line_yaml example_settings) stopping_process [Consume example_sweep] s'"
    "worker_thread s' = Checking" using stopping_run by blast
  have "worker_stop stopping_process" "timer_stop stopping_process" "worker_thread stopping_process = Blocked"
    by (simp_all add: stopping_process_def)
  with shutdown_ends [OF r(1)] r(2) show ?thesis by simp
qed

theorem validated_start_witness:
  "\<exists>s t'. launch demo_env example_settings demo_process = (Inr (), s) \<and>
     after_indexes_start demo_env example_settings s = (Inr (), t') \<and> worker_thread t' = Checking"
proof -
  obtain s where s: "launch demo_env example_settings demo_process = (Inr (), s)" using demo_launch by blast
  have "trace demo_process = []" by (simp add: demo_process_def)
  from validated_start [OF example_raw(8) s this runs_start] s show ?thesis by blast
qed

definition disabled_settings :: settings where
  "disabled_settings = example_settings\<lparr>VAULT_GIT_ENABLED := ''off''\<rparr>"

lemma disabled_flag: "\<not> is_enabled disabled_settings"
  by code_simp

theorem disabled_is_inert_witness:
  "\<exists>s. launch demo_env disabled_settings demo_process = (Inr (), s) \<and> trace s = [ELog Info MExtDisabled]"
proof -
  obtain r s where l: "launch demo_env disabled_settings demo_process = (r, s)"
    by (cases "launch demo_env disabled_settings demo_process")
  from disabled_is_inert [OF disabled_flag l runs_start] l show ?thesis by (auto simp: demo_process_def)
qed

text \<open>A vault that is not there.\<close>

lemma no_vault_refused:
  "\<exists>m s. launch demo_env example_settings (demo_process\<lparr>world := script0\<rparr>) = (Inl (ValueError m), s)"
proof (cases "launch demo_env example_settings (demo_process\<lparr>world := script0\<rparr>)" rule: prod.exhaust)
  case (Pair r s)
  have "\<exists>m t. validate_gitsync demo_env example_settings (fresh example_settings (demo_process\<lparr>world := script0\<rparr>))
      = (Inl (ValueError m), t)"
    by (simp add: validate_gitsync_def example_raw andthen_def seq_def check_vault_def sys_def script_env_def
        script0_def fresh_def demo_process_def throw_def)
  with Pair show ?thesis by (cases rule: launch_cases) (use Pair in \<open>auto simp: example_raw\<close>)
qed

theorem refused_launch_attaches_nothing_witness:
  "\<exists>e s. launch demo_env example_settings (demo_process\<lparr>world := script0\<rparr>) = (Inl e, s) \<and> \<not> write_listener s"
  using no_vault_refused refused_launch_attaches_nothing [OF demo_answers] by blast

section \<open>A server with modules to import\<close>

definition demo_host :: "(script, string, string, string) host" where
  "demo_host =
     \<lparr>h_import = (\<lambda>n w. (if n = ''gone'' then Inl (ImportError ''No module named gone'') else Inr n, w)),
      h_getattr = (\<lambda>m n w. (Inr (m @ ''.'' @ n), w)),
      h_is_extension = (\<lambda>t. True), h_repr = (\<lambda>t. t), h_new = (\<lambda>t w. (Inr t, w)), h_qualname = (\<lambda>x. x)\<rparr>"

lemma demo_host_answers: "host_answers demo_host"
  by (auto simp: host_answers_def demo_host_def split: if_splits)

lemma demo_host_simps [simp]:
  "h_import demo_host n w = (if n = ''gone'' then Inl (ImportError ''No module named gone'') else Inr n, w)"
  "h_getattr demo_host m n w = (Inr (m @ ''.'' @ n), w)" "h_is_extension demo_host t"
  "h_new demo_host t w = (Inr t, w)" "h_qualname demo_host t = t"
  by (simp_all add: demo_host_def)

definition two_entries :: string where
  "two_entries = ''a.b:One, c : Two,''"

lemma two_declared: "declared two_entries = [''a.b:One'', ''c : Two'']"
  by code_simp

lemma two_parts: "spec_parts ''a.b:One'' = (''a.b'', True, ''One'')" "spec_parts ''c : Two'' = (''c'', True, ''Two'')"
  by code_simp+

lemma two_loaded:
  "\<exists>s'. load_extra_extensions demo_host two_entries s = (Inr [''a.b.One'', ''c.Two''], s')"
  by (simp add: load_as_entries load_entry_def two_declared two_parts resolve_extension_def import_module_def
      startswith_def seq_def andthen_def attempt_def emit_def sys_try_def ret_def)

theorem declared_are_loaded_witness:
  "\<exists>s'. new_effects demo_process s' = [EImport ''a.b'', EImport ''c'']"
proof -
  obtain s' where "load_extra_extensions demo_host two_entries demo_process = (Inr [''a.b.One'', ''c.Two''], s')"
    using two_loaded by blast
  from declared_are_loaded [OF this] show ?thesis by (auto simp: two_declared two_parts)
qed

theorem nothing_declared_witness:
  "load_extra_extensions demo_host '' , ,'' demo_process = (Inr [], demo_process)"
proof -
  have "blank '' , ,''" by code_simp
  with nothing_declared show ?thesis by blast
qed

text \<open>The second of three entries names a module that is not there; the third is never looked at.\<close>

definition bad_entries :: string where
  "bad_entries = ''a.b:One, gone:Two, c:Three''"

lemma bad_declared: "declared bad_entries = [''a.b:One'', ''gone:Two'', ''c:Three'']"
  by code_simp

lemma bad_parts: "spec_parts ''gone:Two'' = (''gone'', True, ''Two'')" "spec_parts ''c:Three'' = (''c'', True, ''Three'')"
  by code_simp+

lemma good_resolves:
  "\<exists>x s'. resolve_extension demo_host ''a.b:One'' s = (Inr x, s')" "\<exists>x s'. resolve_extension demo_host ''c:Three'' s = (Inr x, s')"
  by (simp_all add: resolve_extension_def import_module_def two_parts bad_parts startswith_def seq_def andthen_def
      attempt_def emit_def sys_try_def ret_def)

lemma bad_fails:
  "\<exists>e s'. load_extra_extensions demo_host bad_entries demo_process = (Inl e, s')"
  by (simp add: load_as_entries load_entry_def bad_declared two_parts bad_parts resolve_extension_def import_module_def
      import_failed_def startswith_def seq_def andthen_def attempt_def emit_def sys_try_def ret_def throw_def)

theorem bad_entry_is_named_witness:
  "\<exists>m s'. load_extra_extensions demo_host bad_entries demo_process
     = (Inl (ValueError (''VAULT_MCP_EXTENSIONS entry '' @ py_repr ''gone:Two'' @ m)), s')"
proof -
  obtain e s' where run: "load_extra_extensions demo_host bad_entries demo_process = (Inl e, s')" using bad_fails by blast
  from bad_entry_is_named [OF demo_host_answers run] obtain pre spec post xs t where
    d: "declared bad_entries = pre @ spec # post" and r: "resolve_extension demo_host spec t = (Inl e, s')"
    and e: "(\<exists>m. e = ValueError (''VAULT_MCP_EXTENSIONS entry '' @ py_repr spec @ m)) \<or>
      (startswith (module_of spec) ''.'' \<and> (\<exists>m. e = Raised ''TypeError'' m))" by blast
  from d have "spec \<in> set (declared bad_entries)" by simp
  then have "spec = ''gone:Two''"
    using r good_resolves [of t] by (auto simp: bad_declared)
  with e run show ?thesis by (auto simp: bad_parts startswith_def)
qed

lemma two_served:
  "\<exists>s'. main demo_env demo_host disabled_settings two_entries demo_process
     = (Inr (Served [GitSync, Extra ''a.b.One'', Extra ''c.Two'']), s')"
proof -
  obtain t where "load_extra_extensions demo_host two_entries (fresh disabled_settings demo_process)
      = (Inr [''a.b.One'', ''c.Two''], t)" using two_loaded by blast
  moreover have "new_extension disabled_settings demo_process = (Inr (), fresh disabled_settings demo_process)"
    by (simp add: new_extension_def modify_def fresh_def new_queue_def)
  ultimately show ?thesis
    by (simp add: main_def validate_gitsync_def disabled_flag andthen_def seq_def attempt_def emit_def ret_def)
qed

theorem main_fails_closed_witness:
  "\<exists>s'. main demo_env demo_host disabled_settings two_entries demo_process
      = (Inr (Served [GitSync, Extra ''a.b.One'', Extra ''c.Two'']), s') \<and>
     new_effects demo_process s' =
       [EImport ''a.b'', EImport ''c'', ELog Info (MLoading [''a.b.One'', ''c.Two''])]"
proof -
  obtain s' where run: "main demo_env demo_host disabled_settings two_entries demo_process
     = (Inr (Served [GitSync, Extra ''a.b.One'', Extra ''c.Two'']), s')" using two_served by blast
  have "h_qualname demo_host = (\<lambda>x. x)" by (rule ext) simp
  with main_fails_closed [OF run] run show ?thesis
    by (auto simp: two_declared two_parts validation_effects_def disabled_flag)
qed

section \<open>Working, staying local, delivering\<close>

lemma demo_tick:
  assumes "events s = []" "\<not> timer_stop s" "timer s = Some n"
  shows "sys_step env y cfg s Tick (s\<lparr>events := [example_sweep]\<rparr>)"
  using assms
  by (simp add: step_simps sweep_tick_def seq_def gets_def andthen_def enqueue_def modify_def put_def ret_def
      example_sweep_def)

theorem queue_can_be_worked_off_witness:
  "\<exists>t ks t'. events t = [example_sweep] \<and> runs (sys_step demo_env line_yaml example_settings) t ks t' \<and>
     handled ks = [example_sweep] \<and> events t' = []"
proof -
  obtain s where s: "launch demo_env example_settings demo_process = (Inr (), s)" using demo_launch by blast
  obtain c where c: "from_config example_settings = Some c" by (rule example_config)
  obtain s1 where 1: "sys_step demo_env line_yaml example_settings s Start s1" "events s1 = []" "\<not> timer_stop s1"
    "\<not> worker_stop s1" "worker_thread s1 = Checking" "timer s1 = Some 60"
    using demo_start [OF s c example_raw(8) example_sweep_interval] by blast
  define t where "t = s1\<lparr>events := [example_sweep]\<rparr>"
  have "runs (sys_step demo_env line_yaml example_settings) s ([Start] @ [Tick]) t"
    unfolding t_def by (rule runs_append, rule runs_one, rule demo_tick [OF 1(2,3,6)], rule runs_one, rule 1(1))
  moreover have "trace demo_process = []" "worker_thread t = Checking" "\<not> worker_stop t" "events t = [example_sweep]"
    using 1 by (simp_all add: demo_process_def t_def)
  ultimately show ?thesis using queue_can_be_worked_off [OF example_raw(8) s] by metis
qed

definition local_settings :: settings where
  "local_settings = example_settings\<lparr>VAULT_GIT_REMOTE := '' ''\<rparr>"

lemma local_raw:
  "is_enabled local_settings" "cfg_remote local_settings = ''''" "sweep_interval local_settings = Some 60"
  by code_simp+

lemma local_launch: "\<exists>s. launch demo_env local_settings demo_process = (Inr (), s)"
proof (cases "launch demo_env local_settings demo_process" rule: prod.exhaust)
  case (Pair r s)
  then show ?thesis
  proof (cases rule: launch_cases)
    case (refused e)
    have "check_interval local_settings = Inr ()" by code_simp
    moreover have "check_heartbeat local_settings = Inr ()"
      using example_heartbeat by (simp add: local_settings_def check_heartbeat_def cfg_heartbeat_url_def)
    moreover have "subcommand (ident_argv local_settings) = ''var''"
      by (simp add: subcommand_def ident_argv_def numeral_3_eq_3)
    moreover have "VAULT_PATH local_settings = path_of ''/vault''" "VAULT_GIT_PUSH_DEBOUNCE local_settings = ''10''"
      "VAULT_GIT_PUSH_MAX_INTERVAL local_settings = ''300''"
      by (simp_all add: local_settings_def example_raw)
    ultimately have "fst (validate_gitsync demo_env local_settings (fresh local_settings demo_process)) = Inr ()"
      by (simp add: validate_gitsync_def local_raw andthen_def seq_def check_vault_def sys_def
          script_env_def example_git_path example_vault_path Let_def eval_float_10 eval_float_300 check_remote_def
          run_process_def example_checkout_def ident_argv_def script0_def check_identity_def ret_def fresh_def
          demo_process_def)
    with refused(2) show ?thesis by simp
  qed (use Pair in simp_all)
qed

lemma local_config:
  obtains c where "from_config local_settings = Some c" "push_debounce c = Fin 10"
proof -
  have d: "cfg_push_debounce local_settings = Some (Fin 10)" "cfg_push_max_interval local_settings = Some (Fin 300)"
    by (simp_all add: cfg_push_debounce_def cfg_push_max_interval_def local_settings_def example_raw eval_float_10
        eval_float_300)
  then obtain c where c: "from_config local_settings = Some c" by (auto simp: from_config_def)
  with d from_config_debounce [OF c] show thesis by (intro that [of c]) simp_all
qed

theorem commit_only_system_is_local_witness:
  "\<exists>s s' e. runs (sys_step demo_env line_yaml local_settings) s [Start, Tick, Check, Consume example_sweep] s' \<and>
     e \<in> set (new_effects s s') \<and> local_effect e"
proof -
  obtain s where s: "launch demo_env local_settings demo_process = (Inr (), s)" using local_launch by blast
  obtain c where c: "from_config local_settings = Some c" "push_debounce c = Fin 10" by (rule local_config)
  obtain s1 where 1: "sys_step demo_env line_yaml local_settings s Start s1" "events s1 = []" "\<not> timer_stop s1"
    "\<not> worker_stop s1" "worker s1 = Some c" "worker_thread s1 = Checking" "timer s1 = Some 60"
    using demo_start [OF s c(1) local_raw(1,3)] by blast
  obtain s2 where 2: "runs (sys_step demo_env line_yaml local_settings) s1 [Tick, Check, Consume example_sweep] s2"
    "owes (cmds (trace s2))"
    using demo_work [OF 1(2-7) c(2)] by blast
  have t: "trace demo_process = []" by (simp add: demo_process_def)
  have r: "runs (sys_step demo_env line_yaml local_settings) s ([Start] @ [Tick, Check, Consume example_sweep]) s2"
    by (rule runs_append [OF 2(1)], rule runs_one, rule 1(1))
  have "\<not> owes (cmds (trace s))"
    using launch_ok [OF s t] launched_fields(2) [OF s] by (simp add: sys_ok_def books_ok_def)
  with 2(2) runs_local [OF r launch_ok [OF s t] local_raw(2)] obtain e where "e \<in> set (new_effects s s2)"
    by (cases "new_effects s s2") (auto simp: stays_local_def new_effects_def)
  moreover from commit_only_system_is_local [OF local_raw(2) s t r this] have "local_effect e" .
  ultimately show ?thesis using r by auto
qed

definition leaving_process :: "script ext_st" where
  "leaving_process = stopping_process\<lparr>unpushed := True, worker_thread := Ended\<rparr>"

theorem shutdown_delivers_witness:
  "\<exists>s'. sys_step (exiting_env 0) line_yaml example_settings leaving_process Flush s' \<and> \<not> unpushed s'"
proof -
  have w: "worker leaving_process = Some example_conf" "unpushed leaving_process" "worker_stop leaving_process"
    by (simp_all add: leaving_process_def stopping_process_def)
  obtain s' where "maybe_push (exiting_env 0) example_conf leaving_process = (Inr (), s')"
    using maybe_push_never_raises [of "exiting_env 0" example_conf] by (metis never_raises_def old.unit.exhaust)
  then have "sys_step (exiting_env 0) line_yaml example_settings leaving_process Flush s'"
    using w by (intro do_flush) (simp_all add: final_flush_def seq_def gets_def)
  with shutdown_delivers [OF exiting_answers exiting_exits _ _ w(1,2) this] show ?thesis by auto
qed

section \<open>One git directory, one identity\<close>

theorem git_dir_is_cached_witness:
  "\<exists>s' d. git_dir script_env example_git example_state = (Inr d, s') \<and>
     git_dir script_env example_git s' = (Inr d, s')"
proof -
  obtain s' where run: "git_dir script_env example_git example_state = (Inr (path_of ''/v/.git''), s')"
    by (simp add: git_dir_def seq_def gets_def ret_def example_state_def)
  from git_dir_is_cached [OF run] run show ?thesis by auto
qed

lemma demo_commit:
  "\<exists>s'. commit demo_env g m s = (Inr \<lparr>rc = 0, stdout = ''main'', stderr = ''''\<rparr>, s') \<and>
     EGit (git_argv g (identity_args g @ [''commit'', ''-m'', m])) (Some 0) \<in> set (new_effects s s')"
  by (simp add: commit_def has_staged_def seq_def run_git_eq ret_def ok_def new_effects_def)

theorem commit_uses_validated_identity_witness:
  "\<exists>c pre. from_config example_settings = Some c \<and> ident_argv example_settings = pre @ [''var'', ''GIT_AUTHOR_IDENT''] \<and>
     git_argv (git c) (identity_args (git c) @ [''commit'', ''-m'', ''hello'']) = pre @ [''commit'', ''-m'', ''hello'']"
proof -
  obtain c where c: "from_config example_settings = Some c" by (rule example_config)
  from demo_commit [of "git c" "''hello''" demo_process] obtain s' where
    run: "commit demo_env (git c) ''hello'' demo_process = (Inr \<lparr>rc = 0, stdout = ''main'', stderr = ''''\<rparr>, s')"
    and e: "EGit (git_argv (git c) (identity_args (git c) @ [''commit'', ''-m'', ''hello''])) (Some 0)
       \<in> set (new_effects demo_process s')"
    by (elim exE conjE)
  from commit_uses_validated_identity [OF c run e demo_subcommands(3)] obtain pre where
    "ident_argv example_settings = pre @ [''var'', ''GIT_AUTHOR_IDENT'']"
    "git_argv (git c) (identity_args (git c) @ [''commit'', ''-m'', ''hello'']) = pre @ [''commit'', ''-m'', ''hello'']"
    by (elim exE conjE)
  with c show ?thesis by (intro exI conjI)
qed

section \<open>A worker that recovers\<close>

theorem healthy_sweep_is_silent_witness:
  "\<exists>s'. handle_sync_sweep demo_env example_conf (demo_process\<lparr>degraded_rc := Some (Rc 1)\<rparr>) = (Inr (), s') \<and>
     ELog Info (MRecovered (Rc 1)) \<in> set (new_effects (demo_process\<lparr>degraded_rc := Some (Rc 1)\<rparr>) s') \<and> Info < Warn"
proof -
  have "\<exists>s'. handle_sync_sweep demo_env example_conf (demo_process\<lparr>degraded_rc := Some (Rc 1)\<rparr>) = (Inr (), s') \<and>
      \<not> degraded s' \<and> ELog Info (MRecovered (Rc 1)) \<in> set (new_effects (demo_process\<lparr>degraded_rc := Some (Rc 1)\<rparr>) s')"
    by (simp add: worker_eval demo_process_def new_effects_def degraded_def)
  with healthy_sweep_is_silent [OF demo_answers] show ?thesis by blast
qed

section \<open>Two ways to get stuck\<close>

definition timeout_env :: "script env" where
  "timeout_env = script_env\<lparr>x_run := \<lambda>argv w.
     (if subcommand argv = ''rebase'' then Inl TimeoutExpired else Inr (0, '''', ''''), w)\<rparr>"

theorem rebase_timeout_skips_abort_witness:
  "\<exists>s'. maybe_push timeout_env example_conf pending_state = (Inr (), s') \<and> unpushed s' \<and>
     cmds (new_effects pending_state s') = [(''fetch'', Some 0), (''rebase'', None)]"
  by (rule rebase_timeout_skips_abort [where out = "''''" and err = "''''"])
     (simp_all add: timeout_env_def subcommand_def pending_state_def)

definition inf_settings :: settings where
  "inf_settings = example_settings\<lparr>VAULT_GIT_PUSH_DEBOUNCE := ''inf''\<rparr>"

definition inf_conf :: worker_conf where
  "inf_conf = the (from_config inf_settings)"

theorem infinite_debounce_ends_worker_witness:
  "\<exists>s'. sys_step demo_env line_yaml inf_settings
     (demo_process\<lparr>worker := Some inf_conf, worker_thread := Blocked\<rparr>) Crash s'"
proof -
  have raw: "VAULT_GIT_PUSH_DEBOUNCE inf_settings = ''inf''" by (simp add: inf_settings_def)
  have "float_of_text ''inf'' = Some PInf" by code_simp
  then have "cfg_push_debounce inf_settings = Some PInf" "cfg_push_max_interval inf_settings = Some (Fin 300)"
    by (simp_all add: cfg_push_debounce_def cfg_push_max_interval_def inf_settings_def example_raw eval_float_300)
  then have "from_config inf_settings = Some inf_conf" by (simp add: from_config_def inf_conf_def)
  from infinite_debounce_ends_worker [OF raw this, of "demo_process\<lparr>worker := Some inf_conf, worker_thread := Blocked\<rparr>"]
  show ?thesis by (simp add: demo_process_def) blast
qed

end
