(* ===== verification/BackupExamples.thy ===== *)
theory BackupExamples
  imports SystemBackup SystemExamples
begin

text \<open>
  The theorems about the repository at work: a machine with a small git of its own, which keeps the laws, and a
  process that is launched on it, commits a note and pushes it.
\<close>

section \<open>A machine with a repository\<close>

text \<open>A log is a list of snapshots with their messages, the latest first; \<open>m_pushed\<close> holds every log that was pushed.\<close>

type_synonym note_log = "((string \<times> string) list \<times> string) list"

record machine =
  m_files :: "(string \<times> string) list"
  m_index :: "(string \<times> string) list"
  m_log :: note_log
  m_pushed :: "note_log list"

definition m_head :: "note_log \<Rightarrow> (string \<times> string) list" where
  "m_head l = (case l of [] \<Rightarrow> [] | k # _ \<Rightarrow> fst k)"

definition machine_git :: "string list \<Rightarrow> machine \<Rightarrow> (int \<times> string \<times> string) \<times> machine" where
  "machine_git argv w =
     (let sub = subcommand argv in
      if sub = ''add'' then ((0, '''', ''''), w\<lparr>m_index := m_files w\<rparr>)
      else if sub = ''diff'' then ((if m_index w = m_head (m_log w) then 0 else 1, '''', ''''), w)
      else if sub = ''commit'' then ((0, '''', ''''), w\<lparr>m_log := (m_index w, last argv) # m_log w\<rparr>)
      else if sub = ''push'' then ((0, '''', ''''), w\<lparr>m_pushed := m_log w # m_pushed w\<rparr>)
      else ((0, ''main'', ''''), w))"

text \<open>One note of the vault can be read and written by the package.\<close>

definition machine_note :: path where
  "machine_note = joinpath (vault example_git) ''n.md''"

definition note_text :: "machine \<Rightarrow> exn + string" where
  "note_text w = (case map_of (m_files w) ''n.md'' of None \<Rightarrow> Inl not_found | Some t \<Rightarrow> Inr t)"

definition machine_env :: "machine env" where
  "machine_env =
     \<lparr>x_run = (\<lambda>argv w. case machine_git argv w of (r, w') \<Rightarrow> (Inr r, w')),
      x_monotonic = (\<lambda>w. (Fin 0, w)), x_time = (\<lambda>w. (Fin 0, w)), x_utcnow = (\<lambda>w. (0, w)),
      x_is_dir = (\<lambda>p w. (True, w)), x_is_file = (\<lambda>p w. (p = machine_note, w)), x_exists = (\<lambda>p w. (True, w)),
      x_listdir = (\<lambda>p w. (Inr [], w)), x_walk = (\<lambda>p w. ([], w)), x_mtime = (\<lambda>p w. (Inr (Fin 0), w)),
      x_read = (\<lambda>p w. (if p = machine_note then note_text w else Inl not_found, w)),
      x_write = (\<lambda>p t w. if p = machine_note then (Inr (), w\<lparr>m_files := (''n.md'', t) # m_files w\<rparr>)
                    else (Inl not_found, w)),
      x_unlink = (\<lambda>p w. (Inl not_found, w)), x_getpid = (\<lambda>w. (7, w)),
      x_http = (\<lambda>u t w. (Inl (OSError ''URLError''), w)), x_read_body = (\<lambda>n w. (Inr (), w))\<rparr>"

text \<open>The repository that a machine holds.\<close>

fun revision_of :: "note_log \<Rightarrow> revision option" where
  "revision_of [] = None"
| "revision_of ((t, m) # l) = Some (Revision (map_of t) m (revision_of l))"

definition log_history :: "note_log \<Rightarrow> revision list" where
  "log_history l = (case revision_of l of None \<Rightarrow> [] | Some k \<Rightarrow> ancestry k)"

definition machine_view :: "machine \<Rightarrow> repo" where
  "machine_view w =
     \<lparr>files = map_of (m_files w), index = map_of (m_index w), tip = revision_of (m_log w),
      on_branch = Some ''main'', remote_has = set (concat (map log_history (m_pushed w)))\<rparr>"

lemma machine_view_simps [simp]:
  "files (machine_view w) = map_of (m_files w)" "index (machine_view w) = map_of (m_index w)"
  "tip (machine_view w) = revision_of (m_log w)" "on_branch (machine_view w) = Some ''main''"
  "remote_has (machine_view w) = set (concat (map log_history (m_pushed w)))"
  "history (machine_view w) = log_history (m_log w)"
  by (simp_all add: machine_view_def history_def log_history_def)

lemma machine_head: "head_files (machine_view w) = map_of (m_head (m_log w))"
  by (cases "m_log w" rule: revision_of.cases) (simp_all add: head_files_def m_head_def)

lemma machine_env_simps [simp]:
  "x_run machine_env argv w = (Inr (fst (machine_git argv w)), snd (machine_git argv w))"
  "x_monotonic machine_env w = (Fin 0, w)" "x_time machine_env w = (Fin 0, w)" "x_utcnow machine_env w = (0, w)"
  "x_is_dir machine_env p w = (True, w)" "x_is_file machine_env p w = (p = machine_note, w)" "x_exists machine_env p w = (True, w)"
  "x_listdir machine_env p w = (Inr [], w)" "x_walk machine_env p w = ([], w)"
  "x_mtime machine_env p w = (Inr (Fin 0), w)"
  "x_read machine_env p w = (if p = machine_note then note_text w else Inl not_found, w)"
  "x_write machine_env p t w = (if p = machine_note then (Inr (), w\<lparr>m_files := (''n.md'', t) # m_files w\<rparr>)
     else (Inl not_found, w))" "x_unlink machine_env p w = (Inl not_found, w)"
  "x_getpid machine_env w = (7, w)" "x_http machine_env u l w = (Inl (OSError ''URLError''), w)"
  "x_read_body machine_env n w = (Inr (), w)"
  by (simp_all add: machine_env_def split: prod.split)

text \<open>The commands of the worker, as the machine sees them.\<close>

lemma machine_subcommands [simp]:
  "subcommand (git_argv g (''add'' # rest)) = ''add''"
  "subcommand (git_argv g [''rebase'', ''--abort'']) = ''rebase --abort''"
  "subcommand (git_argv g [''rev-parse'', ''--absolute-git-dir'']) = ''rev-parse''"
  by (cases rest; simp add: subcommand_def) (simp_all add: subcommand_def)

lemma last_commit_argv [simp]: "last (git_argv g (identity_args g @ [''commit'', ''-m'', m])) = m"
  by (simp add: git_argv_def)

lemma machine_steady:
  assumes "m_index w' = m_index w" "m_log w' = m_log w" "set (m_pushed w) \<subseteq> set (m_pushed w')"
  shows "steady machine_view w w'"
  using assms by (auto simp: steady_def anchored_def published_def)

lemma machine_others: "law_others machine_env machine_view"
  by (simp add: law_others_def steady.refl machine_steady)

lemma machine_laws: "git_laws machine_env g rem machine_view"
  unfolding git_laws_def
proof (intro conjI machine_others)
  have main: "strip ''main'' = ''main''" by code_simp
  show "law_add machine_env g machine_view"
    by (auto simp: law_add_def machine_git_def stages_def anchored_def published_def)
  show "law_diff machine_env g machine_view"
    by (auto simp: law_diff_def machine_git_def machine_head steady.refl)
  show "law_commit machine_env g machine_view"
    by (auto simp: law_commit_def machine_git_def published_def)
  show "law_look machine_env g rem machine_view"
    by (auto simp: law_look_def machine_git_def steady.refl main)
  show "law_rebase machine_env g rem machine_view"
    by (auto simp: law_rebase_def machine_git_def steady.refl published.refl)
  show "law_push machine_env g rem machine_view"
    by (auto simp: law_push_def machine_git_def delivered_def intro!: machine_steady)
qed

text \<open>Its rebase always succeeds, so no abort is ever needed.\<close>

lemma machine_aborts: "aborts_work machine_env g rem machine_view"
  by (simp add: aborts_work_def machine_git_def)

lemma machine_answers: "git_answers machine_env"
  by (auto simp: git_answers_def machine_env_def split: prod.split)

lemma machine_pushes: "always_exits machine_env (push_argv c) 0"
  by (simp add: always_exits_def push_argv_def machine_git_def)


section \<open>One cycle\<close>

definition box :: machine where
  "box = \<lparr>m_files = [(''n.md'', ''hi''), (''b.txt'', ''new''), (''a.md'', ''old'')], m_index = [(''a.md'', ''old'')],
     m_log = [([(''a.md'', ''old'')], ''first'')], m_pushed = [[([(''a.md'', ''old'')], ''first'')]]\<rparr>"

definition box_state :: "machine worker_st" where
  "box_state = \<lparr>world = box, trace = [], git_dir_cache = None, unpushed = False, last_push = Fin 0, degraded_rc = None\<rparr>"

lemma box_sweep: "\<exists>s'. handle_sync_sweep machine_env example_conf box_state = (Inr (), s') \<and> \<not> degraded s'"
  by (simp add: worker_eval box_state_def box_def machine_git_def m_head_def degraded_def)

theorem healthy_sweep_saves_vault_witness:
  "\<exists>s'. handle_sync_sweep machine_env example_conf box_state = (Inr (), s') \<and>
     head_files (machine_view (world s')) ''n.md'' = Some ''hi''"
proof -
  obtain s' where s': "handle_sync_sweep machine_env example_conf box_state = (Inr (), s')" "\<not> degraded s'"
    using box_sweep by blast
  from healthy_sweep_saves_vault [OF machine_laws s' refl refl, of "''n.md''"]
  have "head_files (machine_view (world s')) ''n.md'' = Some ''hi''"
    by (simp add: box_state_def box_def machine_git_def)
  with s'(1) show ?thesis by blast
qed

definition box_write :: sync_event where
  "box_write = mcp_write ''created'' [''b.txt'']"

lemma box_write_simps [simp]: "paths box_write = [''b.txt'']" "operation box_write = Some ''created''"
  by (simp_all add: box_write_def mcp_write_def)

lemma box_stamping:
  "stamping_part machine_env line_yaml example_settings example_conf box_write box_state = (Inr (), box_state)"
proof -
  have "joinpath (vault example_git) ''b.txt'' \<noteq> machine_note" unfolding machine_note_def by code_simp
  then show ?thesis
    by (auto simp: stamping_part_def event_paths_def stamp_paths_def stamp_one_def stamp_def stamp_body_def attempt_def
        seq_def sys_def ret_def andthen_def)
qed

lemma box_written:
  "\<exists>s'. handle_mcp_write machine_env line_yaml example_settings example_conf box_write box_state = (Inr (), s') \<and>
     \<not> degraded s'"
proof -
  have "handle_mcp_write machine_env line_yaml example_settings example_conf box_write box_state =
      stage_and_commit machine_env example_conf ''mcp'' (add machine_env example_git [''b.txt''])
        (mcp_message (Some ''created'') [''b.txt'']) box_state"
    using box_stamping by (simp add: handle_mcp_write_parts andthen_def seq_Inr)
  then show ?thesis
    by (simp add: worker_eval add_def box_state_def box_def machine_git_def m_head_def degraded_def)
qed

theorem healthy_write_is_committed_witness:
  "\<exists>s'. handle_mcp_write machine_env line_yaml example_settings example_conf box_write box_state = (Inr (), s') \<and>
     head_files (machine_view (world s')) ''b.txt'' = Some ''new''"
proof -
  obtain s' where s': "handle_mcp_write machine_env line_yaml example_settings example_conf box_write box_state = (Inr (), s')"
    "\<not> degraded s'"
    using box_written by blast
  from healthy_write_is_committed [OF machine_laws s' _ _ box_stamping, of "''b.txt''"]
  have "head_files (machine_view (world s')) ''b.txt'' = Some ''new''"
    by (simp add: plain_path_def box_state_def box_def machine_git_def)
  with s'(1) show ?thesis by blast
qed

text \<open>A note without frontmatter, stamped and committed.\<close>

definition box_note :: sync_event where
  "box_note = mcp_write ''created'' [''n.md'']"

definition stamped_text :: string where
  "stamped_text = FM_DELIM @ ''created: 1970-01-01T00:00:00Z'' @ [newline] @ ''modified: 1970-01-01T00:00:00Z'' @ [newline]
     @ FM_DELIM @ ''hi''"

lemma box_note_simps [simp]: "paths box_note = [''n.md'']" "operation box_note = Some ''created''"
  by (simp_all add: box_note_def mcp_write_def)

lemma machine_note_facts: "lower (suffix machine_note) = ''.md''" "split_frontmatter ''hi'' = (None, ''hi'')"
  "universal_newlines ''hi'' = ''hi''" "stamp_enabled example_settings" "int_of_float (Fin 0) = Inr 0"
  unfolding machine_note_def by code_simp+

lemma fresh_stamps: "modified_epoch line_yaml [] = Inr None"
  "set_stamps line_yaml ''1970-01-01T00:00:00Z'' [] =
     Inr [(''created'', ''1970-01-01T00:00:00Z''), (''modified'', ''1970-01-01T00:00:00Z'')]"
  by code_simp+

lemma fresh_dump:
  "case y_dump line_yaml [(''created'', ''1970-01-01T00:00:00Z''), (''modified'', ''1970-01-01T00:00:00Z'')] of
     Inl e \<Rightarrow> False
   | Inr out \<Rightarrow> FM_DELIM @ unquote_stamps out @ FM_DELIM @ ''hi'' = stamped_text"
  by code_simp

lemma box_stamped:
  "stamp machine_env line_yaml machine_note box_state =
     (Inr True, box_state\<lparr>world := box\<lparr>m_files := (''n.md'', stamped_text) # m_files box\<rparr>,
        trace := [EWrite machine_note stamped_text]\<rparr>)"
proof -
  obtain out where out: "y_dump line_yaml [(''created'', ''1970-01-01T00:00:00Z''), (''modified'', ''1970-01-01T00:00:00Z'')]
      = Inr out" "FM_DELIM @ unquote_stamps out @ FM_DELIM @ ''hi'' = stamped_text"
    using fresh_dump by (auto split: sum.splits)
  have "stamped_text \<noteq> ''hi''" by code_simp
  moreover have "y_empty line_yaml = []" by (simp add: line_yaml_def)
  ultimately show ?thesis
    by (simp add: stamp_def stamp_body_def restamp_def now_utc_def read_text_def write_text_def attempt_def seq_def
        andthen_def sys_def sys_try_def emit_def ret_def Let_def machine_note_facts fresh_stamps out example_stamp_0
        note_text_def box_state_def box_def)
qed

lemma box_noted:
  "\<exists>s'. handle_mcp_write machine_env line_yaml example_settings example_conf box_note box_state = (Inr (), s') \<and>
     \<not> degraded s'"
proof -
  let ?s0 = "box_state\<lparr>world := box\<lparr>m_files := (''n.md'', stamped_text) # m_files box\<rparr>,
        trace := [EWrite machine_note stamped_text]\<rparr>"
  have "stamping_part machine_env line_yaml example_settings example_conf box_note box_state = (Inr (), ?s0)"
    using box_stamped machine_note_facts(4)
    by (simp add: stamping_part_def event_paths_def stamp_paths_def stamp_one_def attempt_def andthen_def seq_def ret_def
        machine_note_def)
  then have "handle_mcp_write machine_env line_yaml example_settings example_conf box_note box_state =
      stage_and_commit machine_env example_conf ''mcp'' (add machine_env example_git [''n.md''])
        (mcp_message (Some ''created'') [''n.md'']) ?s0"
    by (simp add: handle_mcp_write_parts andthen_def seq_Inr)
  then show ?thesis
    by (simp add: worker_eval add_def box_state_def box_def machine_git_def m_head_def degraded_def)
qed

theorem stamp_lands_in_commit_witness:
  "\<exists>s' t. handle_mcp_write machine_env line_yaml example_settings example_conf box_note box_state = (Inr (), s') \<and>
     head_files (machine_view (world s')) ''n.md'' = Some t"
proof -
  obtain s' where s': "handle_mcp_write machine_env line_yaml example_settings example_conf box_note box_state = (Inr (), s')"
    "\<not> degraded s'"
    using box_noted by blast
  have land: "writes_land machine_env (git example_conf) machine_view ''n.md''"
    by (auto simp: writes_land_def machine_note_def)
  have plain: "plain_path ''n.md''" by (simp add: plain_path_def)
  have st: "stamp machine_env line_yaml (joinpath (vault (git example_conf)) ''n.md'') box_state =
     (Inr True, box_state\<lparr>world := box\<lparr>m_files := (''n.md'', stamped_text) # m_files box\<rparr>,
        trace := [EWrite machine_note stamped_text]\<rparr>)"
    using box_stamped by (simp add: machine_note_def)
  from stamp_lands_in_commit [OF machine_laws land plain machine_note_facts(4) _ _ st s'] s'(1)
  show ?thesis by (auto simp: machine_git_def)
qed

lemma box_delivered: "delivered (machine_view box)"
  by (simp add: delivered_def box_def)

lemma box_marks: "mark_true machine_view (branch example_conf) box_state"
  using box_delivered by (simp add: mark_true_def box_state_def)

theorem quiet_window_backs_up_witness:
  "\<exists>s1 s2. handle_sync_sweep machine_env example_conf box_state = (Inr (), s1) \<and>
     run_iteration machine_env line_yaml example_settings example_conf None s1 = (Inr (), s2) \<and>
     delivered (machine_view (world s2)) \<and> head_files (machine_view (world s2)) ''n.md'' = Some ''hi''"
proof -
  obtain s1 where s1: "handle_sync_sweep machine_env example_conf box_state = (Inr (), s1)" "\<not> degraded s1"
    and old: "remote_has (machine_view (world s1)) \<subseteq> set (history (machine_view (world s1)))"
    by (simp add: worker_eval box_state_def box_def machine_git_def m_head_def degraded_def log_history_def)
  obtain s2 where s2: "run_iteration machine_env line_yaml example_settings example_conf None s1 = (Inr (), s2)"
    using run_iteration_never_raises [of machine_env line_yaml example_settings example_conf None]
    by (metis never_raises_def old.unit.exhaust)
  have "remote example_conf \<noteq> []" "branch example_conf \<noteq> []" by simp_all
  from quiet_window_backs_up [OF machine_laws answers_syncs [OF machine_answers] machine_aborts machine_pushes this box_marks s1 s2 refl refl, of "''n.md''"]
  have "delivered (machine_view (world s2)) \<and> head_files (machine_view (world s2)) ''n.md'' = Some ''hi''"
    using old by (simp add: box_state_def box_def machine_git_def)
  with s1(1) s2 show ?thesis by blast
qed

section \<open>A life of the system\<close>

definition box_settings :: settings where
  "box_settings = example_settings\<lparr>VAULT_GIT_BRANCH := ''main''\<rparr>"

definition box_process :: "machine ext_st" where
  "box_process = \<lparr>world = box, trace = [], git_dir_cache = None, unpushed = False, last_push = Fin 0,
     degraded_rc = None, enabled = False, events = [], timer_stop = False, timer = None, worker = None,
     worker_stop = False, worker_thread = NotStarted, write_listener = False, change_listener = False\<rparr>"

lemma box_raw:
  "is_enabled box_settings" "cfg_remote box_settings = ''origin''" "sweep_interval box_settings = Some 60"
  "cfg_branch box_settings = ''main''"
  by code_simp+

lemma box_config:
  obtains c where "from_config box_settings = Some c" "push_debounce c = Fin 10" "remote c = ''origin''" "branch c = ''main''"
proof -
  have d: "cfg_push_debounce box_settings = Some (Fin 10)" "cfg_push_max_interval box_settings = Some (Fin 300)"
    by (simp_all add: cfg_push_debounce_def cfg_push_max_interval_def box_settings_def example_raw eval_float_10
        eval_float_300)
  then show thesis using that by (auto simp: from_config_def box_raw)
qed


lemma box_validates:
  assumes "world s = box"
  shows "\<exists>s'. validate_gitsync machine_env box_settings s = (Inr (), s') \<and> world s' = box"
proof -
  have "check_interval box_settings = Inr ()" by code_simp
  moreover have "check_heartbeat box_settings = Inr ()"
    using example_heartbeat by (simp add: box_settings_def check_heartbeat_def cfg_heartbeat_url_def)
  moreover have "subcommand (get_url_argv box_settings) = ''remote''" "subcommand (ident_argv box_settings) = ''var''"
    by (simp_all add: subcommand_def get_url_argv_def ident_argv_def numeral_3_eq_3)
  moreover have "VAULT_PATH box_settings = path_of ''/vault''" "VAULT_GIT_PUSH_DEBOUNCE box_settings = ''10''"
    "VAULT_GIT_PUSH_MAX_INTERVAL box_settings = ''300''"
    by (simp_all add: box_settings_def example_raw)
  ultimately show ?thesis
    using assms
    by (simp add: validate_gitsync_def box_raw andthen_def seq_def check_vault_def sys_def
        example_git_path example_vault_path Let_def eval_float_10 eval_float_300 check_remote_def
        run_process_def get_url_argv_def ident_argv_def demo_url needs_token_def lower_def check_identity_def ret_def
        machine_git_def)
qed

lemma box_launch: "\<exists>s. launch machine_env box_settings box_process = (Inr (), s) \<and> world s = box"
proof -
  have "world (fresh box_settings box_process) = box" by (simp add: fresh_def box_process_def)
  from box_validates [OF this] obtain s1 where
    "validate_gitsync machine_env box_settings (fresh box_settings box_process) = (Inr (), s1)" "world s1 = box" by blast
  then show ?thesis
    by (cases "launch machine_env box_settings box_process" rule: prod.exhaust)
       (auto elim!: launch_cases simp: box_raw)
qed

text \<open>Launched and started, with one sweep of the timer handled.\<close>

definition box_labels :: "label list" where
  "box_labels = [Start, Tick, Check, Consume example_sweep]"

lemma box_life:
  obtains s t c where "launch machine_env box_settings box_process = (Inr (), s)" "world s = box"
    "from_config box_settings = Some c" "push_debounce c = Fin 10" "remote c = ''origin''" "branch c = ''main''"
    "runs (sys_step machine_env line_yaml box_settings) s box_labels t" "worker t = Some c"
    "worker_thread t = Checking" "\<not> worker_stop t" "events t = []"
proof -
  let ?step = "sys_step machine_env line_yaml box_settings"
  obtain s where s: "launch machine_env box_settings box_process = (Inr (), s)" "world s = box" using box_launch by blast
  obtain c where c: "from_config box_settings = Some c" "push_debounce c = Fin 10" "remote c = ''origin''" "branch c = ''main''"
    by (rule box_config)
  obtain s1 where 1: "?step s Start s1" "events s1 = []" "\<not> timer_stop s1" "\<not> worker_stop s1" "worker s1 = Some c"
    "worker_thread s1 = Checking" "timer s1 = Some 60"
    using demo_start [OF s(1) c(1) box_raw(1,3)] by blast
  define s2 where "s2 = s1\<lparr>events := [example_sweep]\<rparr>"
  have 2: "?step s1 Tick s2"
    using 1 by (simp add: step_simps sweep_tick_def s2_def seq_def gets_def andthen_def enqueue_def modify_def
        put_def ret_def example_sweep_def)
  have "worker s2 = Some c" "worker_thread s2 = Checking" "\<not> worker_stop s2" "events s2 = [example_sweep]"
    using 1 by (simp_all add: s2_def)
  from take_next [OF this(1-3) _ this(4), of machine_env line_yaml box_settings] c(2) obtain t where
    3: "runs ?step s2 [Check, Consume example_sweep] t" "worker t = Some c" "worker_thread t = Checking"
      "\<not> worker_stop t" "events t = []"
    by auto
  have "runs ?step s (([Start] @ [Tick]) @ [Check, Consume example_sweep]) t"
    by (rule runs_append, rule 3(1), rule runs_append, rule runs_one, rule 2, rule runs_one, rule 1(1))
  with s c 3 show thesis by (intro that) (simp_all add: box_labels_def)
qed

theorem clear_mark_means_delivered_witness:
  "\<exists>s t. runs (sys_step machine_env line_yaml box_settings) s (box_labels @ [Check, Quiet]) t \<and> \<not> unpushed t \<and>
     delivered (machine_view (world t))"
proof -
  let ?step = "sys_step machine_env line_yaml box_settings"
  obtain s t c where s: "launch machine_env box_settings box_process = (Inr (), s)" "world s = box"
    and c: "from_config box_settings = Some c" "push_debounce c = Fin 10" "remote c = ''origin''" "branch c = ''main''"
    and t: "runs ?step s box_labels t" "worker t = Some c" "worker_thread t = Checking" "\<not> worker_stop t" "events t = []"
    by (rule box_life)
  have "remote c \<noteq> []" "branch c \<noteq> []" "0 < (10 :: rat)" "(10 :: rat) + 1 \<le> lock_timeout_max"
    using c by (simp_all add: lock_timeout_max_def)
  from quiet_round [OF answers_syncs [OF machine_answers] machine_pushes this(1,2) c(2) this(3,4) t(2-5)] obtain t2 where
    2: "runs ?step t [Check, Quiet] t2" "\<not> unpushed t2" by blast
  have r: "runs ?step s (box_labels @ [Check, Quiet]) t2" by (rule runs_append [OF 2(1) t(1)])
  have "trace box_process = []" "pushes_from c ''main''" "on_branch (machine_view (world s)) = Some ''main''"
    "delivered (machine_view (world s))"
    using c(4) s(2) box_delivered by (simp_all add: box_process_def pushes_from_def)
  from clear_mark_means_delivered [OF s(1) this(1) c(1) machine_laws answers_movers [OF machine_answers] machine_aborts this(2-4)
      r 2(2)] r 2(2)
  show ?thesis by blast
qed

theorem system_can_catch_up_witness:
  "\<exists>t ks t'. runs (sys_step machine_env line_yaml box_settings) t ks t' \<and> events t' = [] \<and>
     delivered (machine_view (world t'))"
proof -
  let ?step = "sys_step machine_env line_yaml box_settings"
  obtain s t c where s: "launch machine_env box_settings box_process = (Inr (), s)" "world s = box"
    and c: "from_config box_settings = Some c" "push_debounce c = Fin 10" "remote c = ''origin''" "branch c = ''main''"
    and t: "runs ?step s box_labels t" "worker_thread t = Checking" "\<not> worker_stop t"
    by (rule box_life)
  have "trace box_process = []" "remote c \<noteq> []" "branch c \<noteq> []" "on_branch (machine_view (world s)) = Some (branch c)"
    "delivered (machine_view (world s))"
    using c s(2) box_delivered by (simp_all add: box_process_def)
  from system_can_catch_up [OF box_raw(1) s(1) this(1) c(1) machine_laws answers_syncs [OF machine_answers] machine_aborts
      machine_pushes this(2,3) c(2) _ this(4,5) t]
  have "(10 :: rat) + 1 \<le> lock_timeout_max \<Longrightarrow> ?thesis" by blast
  then
  show ?thesis by (simp add: lock_timeout_max_def)
qed

theorem shutdown_backs_up_witness:
  "\<exists>s t'. runs (sys_step machine_env line_yaml box_settings) s (box_labels @ [Signal] @ [Flush]) t' \<and>
     delivered (machine_view (world t')) \<and> \<not> unpushed t'"
proof -
  let ?step = "sys_step machine_env line_yaml box_settings"
  obtain s t c where s: "launch machine_env box_settings box_process = (Inr (), s)" "world s = box"
    and c: "from_config box_settings = Some c" "remote c = ''origin''" "branch c = ''main''"
    and t: "runs ?step s box_labels t" "worker t = Some c"
    by (rule box_life)
  define t1 where "t1 = t\<lparr>timer_stop := True, worker_stop := True\<rparr>"
  have 1: "?step t Signal t1"
    using t(2) by (simp add: step_simps signal_shutdown_def t1_def andthen_def seq_def gets_def modify_def)
  obtain t2 where "maybe_push machine_env c t1 = (Inr (), t2)"
    using maybe_push_never_raises [of machine_env c] by (metis never_raises_def old.unit.exhaust)
  then have 2: "?step t1 Flush t2"
    using t(2) by (intro do_flush) (simp_all add: final_flush_def seq_def gets_def t1_def)
  have r: "runs ?step s (box_labels @ [Signal]) t1" by (rule runs_append, rule runs_one, rule 1, rule t(1))
  have "trace box_process = []" "remote c \<noteq> []" "branch c \<noteq> []" "on_branch (machine_view (world s)) = Some (branch c)"
    "delivered (machine_view (world s))"
    using c(2,3) s(2) box_delivered by (simp_all add: box_process_def)
  from shutdown_backs_up [OF s(1) this(1) c(1) machine_laws answers_syncs [OF machine_answers] machine_aborts machine_pushes
      this(2-5) r 2]
  have "delivered (machine_view (world t2)) \<and> \<not> unpushed t2" .
  moreover have "runs ?step s ((box_labels @ [Signal]) @ [Flush]) t2"
    by (rule runs_append, rule runs_one, rule 2, rule r)
  then have "runs ?step s (box_labels @ [Signal] @ [Flush]) t2" by simp
  ultimately show ?thesis by blast
qed

text \<open>A process that died with something unpushed, and is started again.\<close>

definition stranded :: machine where
  "stranded = box\<lparr>m_pushed := []\<rparr>"

theorem restart_forgets_backlog_witness:
  "\<exists>s t. world s = stranded \<and> \<not> delivered (machine_view stranded) \<and>
     sys_step machine_env line_yaml box_settings s Start t \<and> \<not> unpushed t"
proof -
  define s where "s = box_process\<lparr>world := stranded, enabled := True, unpushed := True\<rparr>"
  obtain c where c: "from_config box_settings = Some c" by (rule box_config)
  have on: "enabled s" by (simp add: s_def)
  obtain t where "after_indexes_start machine_env box_settings s = (Inr (), t)"
    using start_returns [OF on c box_raw(3)] by blast
  then have start: "sys_step machine_env line_yaml box_settings s Start t"
    by (intro do_start) (simp_all add: s_def box_process_def)
  from restart_forgets_backlog [OF on start runs_start] have "\<not> unpushed t" by (simp add: handled_def)
  moreover have "\<not> delivered (machine_view stranded)"
    by (simp add: delivered_def stranded_def box_def log_history_def)
  ultimately show ?thesis using start by (intro exI [of _ s] exI [of _ t]) (simp add: s_def)
qed

section \<open>A slow machine\<close>

text \<open>On this machine a commit is made, but git is killed by the timeout before it comes back.\<close>

definition slow_env :: "machine env" where
  "slow_env = machine_env\<lparr>x_run := \<lambda>argv w.
     (if subcommand argv = ''commit'' then Inl TimeoutExpired else Inr (fst (machine_git argv w)), snd (machine_git argv w))\<rparr>"

lemma slow_env_simps [simp]:
  "x_run slow_env argv w =
     (if subcommand argv = ''commit'' then Inl TimeoutExpired else Inr (fst (machine_git argv w)), snd (machine_git argv w))"
  "x_utcnow slow_env w = (0, w)" "x_is_dir slow_env p w = (True, w)" "x_time slow_env w = (Fin 0, w)"
  "x_listdir slow_env p w = (Inr [], w)" "x_walk slow_env p w = ([], w)"
  by (simp_all add: slow_env_def)

lemma slow_laws: "git_laws slow_env g rem machine_view"
proof -
  have "law_others slow_env machine_view = law_others machine_env machine_view"
    by (simp add: law_others_def slow_env_def)
  then have others: "law_others slow_env machine_view" using machine_others by simp
  have laws: "law_add machine_env g machine_view" "law_diff machine_env g machine_view"
    "law_look machine_env g rem machine_view" "law_rebase machine_env g rem machine_view"
    "law_push machine_env g rem machine_view"
    using machine_laws [of g rem] by (simp_all add: git_laws_def)
  have same: "x_run slow_env argv = x_run machine_env argv" if "subcommand argv \<noteq> ''commit''" for argv
    using that by (simp add: fun_eq_iff)
  show ?thesis
    unfolding git_laws_def
  proof (intro conjI others)
    have "subcommand (add_all_argv g) \<noteq> ''commit''" "subcommand (add_argv g ps) \<noteq> ''commit''" for ps by simp_all
    then show "law_add slow_env g machine_view"
      using laws(1) unfolding law_add_def by (metis (no_types, lifting) same)
    show "law_diff slow_env g machine_view"
      using laws(2) unfolding law_diff_def by (simp add: same del: slow_env_simps(1) machine_env_simps)
    show "law_commit slow_env g machine_view" by (simp add: law_commit_def)
    show "law_look slow_env g rem machine_view"
      using laws(3) unfolding law_look_def by (simp add: same del: slow_env_simps(1) machine_env_simps)
    show "law_rebase slow_env g rem machine_view"
      using laws(4) unfolding law_rebase_def by (simp add: same del: slow_env_simps(1) machine_env_simps)
    show "law_push slow_env g rem machine_view"
      using laws(5) unfolding law_push_def by (simp add: same del: slow_env_simps(1) machine_env_simps)
  qed
qed

definition slow_log :: note_log where
  "slow_log = (m_files box, ''sync: auto '' @ format_ts 0) # m_log box"

lemma slow_sweep:
  obtains s1 where "handle_sync_sweep slow_env example_conf box_state = (Inr (), s1)"
    "(''commit'', None) \<in> set (cmds (new_effects box_state s1))"
    "world s1 = box\<lparr>m_index := m_files box, m_log := slow_log\<rparr>" "degraded_rc s1 = Some Timeout"
  by (simp add: worker_eval box_state_def box_def machine_git_def m_head_def except_timeout_def lock_note_def git_dir_def
      describe_present_def find_locks_def glob_locks_def rglob_locks_def sys_try_def new_effects_def cmds_def slow_log_def)

lemma slow_second_sweep:
  assumes "world s1 = box\<lparr>m_index := m_files box, m_log := slow_log\<rparr>" and "degraded_rc s1 = Some Timeout"
  obtains s2 where "handle_sync_sweep slow_env example_conf s1 = (Inr (), s2)"
    "cmds (new_effects s1 s2) = [(''add'', Some 0), (''diff'', Some 0)]"
    "world s2 = world s1"
  using assms
  by (simp add: worker_eval box_def machine_git_def m_head_def new_effects_def cmds_def slow_log_def)

theorem killed_commit_is_forgotten_witness:
  "\<exists>s1 s2. handle_sync_sweep slow_env example_conf box_state = (Inr (), s1) \<and>
     handle_sync_sweep slow_env example_conf s1 = (Inr (), s2) \<and> \<not> degraded s2 \<and>
     run_iteration slow_env line_yaml example_settings example_conf None s2 = (Inr (), s2) \<and>
     \<not> delivered (machine_view (world s2))"
proof -
  obtain s1 where s1: "handle_sync_sweep slow_env example_conf box_state = (Inr (), s1)"
    "(''commit'', None) \<in> set (cmds (new_effects box_state s1))"
    "world s1 = box\<lparr>m_index := m_files box, m_log := slow_log\<rparr>" "degraded_rc s1 = Some Timeout"
    by (rule slow_sweep)
  obtain s2 where s2: "handle_sync_sweep slow_env example_conf s1 = (Inr (), s2)"
    "cmds (new_effects s1 s2) = [(''add'', Some 0), (''diff'', Some 0)]" "world s2 = world s1"
    by (rule slow_second_sweep [OF s1(3,4)])
  have "\<not> unpushed box_state" by (simp add: box_state_def)
  from killed_commit_is_forgotten [OF slow_laws this s1(1,2) s2(1,2)] have
    "\<not> degraded s2" "run_iteration slow_env line_yaml example_settings example_conf None s2 = (Inr (), s2)" by blast+
  moreover have "\<not> delivered (machine_view (world s2))"
    using s1(3) s2(3) by (simp add: delivered_def box_def slow_log_def log_history_def)
  ultimately show ?thesis using s1(1) s2(1) by blast
qed

end
