(* ===== verification/Restamping.thy ===== *)
theory Restamping
  imports Stamping
begin

text \<open>
  Stamping a note twice: the stamps that \<^verbatim>\<open>stamping.py\<close> puts into a note are in the bare form of the Linter, stripping
  their quotes again changes nothing, and a note that was just stamped is left alone.
\<close>

section \<open>The form of the stamps\<close>

lemma ts_shape_parts:
  assumes "length yy = 4" "length mm = 2" "length dd = 2" "length hh = 2" "length mi = 2" "length ss = 2"
    and "\<forall>c \<in> set (yy @ mm @ dd @ hh @ mi @ ss). is_digit c"
  shows "ts_shape (yy @ ''-'' @ mm @ ''-'' @ dd @ ''T'' @ hh @ '':'' @ mi @ '':'' @ ss @ ''Z'')"
proof -
  define ok where "ok p c \<longleftrightarrow> (if p = CHR ''0'' then is_digit c else c = p)" for p c
  have digits: "list_all2 ok (replicate (length w) (CHR ''0'')) w" if "\<forall>c \<in> set w. is_digit c" for w
    using that by (induction w) (simp_all add: ok_def)
  have sep: "list_all2 ok [c] [c]" if "c \<noteq> CHR ''0''" for c using that by (simp add: ok_def)
  have "list_all2 ok (replicate 4 (CHR ''0'') @ ''-'' @ replicate 2 (CHR ''0'') @ ''-'' @ replicate 2 (CHR ''0'') @ ''T'' @
      replicate 2 (CHR ''0'') @ '':'' @ replicate 2 (CHR ''0'') @ '':'' @ replicate 2 (CHR ''0'') @ ''Z'')
    (yy @ ''-'' @ mm @ ''-'' @ dd @ ''T'' @ hh @ '':'' @ mi @ '':'' @ ss @ ''Z'')"
    using assms(7) digits [of yy] digits [of mm] digits [of dd] digits [of hh] digits [of mi] digits [of ss]
    by (intro list_all2_appendI sep) (simp_all add: assms(1-6))
  then show ?thesis unfolding ts_shape_def ok_def by (simp add: numeral_eq_Suc)
qed

lemma ts_shape_format:
  assumes "ts_valid e"
  shows "ts_shape (format_ts e)"
proof -
  obtain y m d where ymd: "ord2ymd (epoch_ordinal e) = (y, m, d)" by (cases "ord2ymd (epoch_ordinal e)")
  then have date: "dt_date (datetime_of_epoch e) = (y, m, d)" by (simp add: datetime_of_epoch_def Let_def)
  have "length (str_of_nat y) = 4" using assms ymd by (intro length_str_of_nat4) (auto simp: ts_valid_def)
  then show ?thesis
    unfolding format_ts_def strftime_def date prod.case
    by (rule ts_shape_parts) (use str_of_nat_digits pad_nat_digits in \<open>auto simp del: pad_nat.simps\<close>)
qed

lemma ts_shape_chars:
  assumes "ts_shape s" and "c \<in> set s"
  shows "is_digit c \<or> c \<in> set ''-T:Z''"
proof -
  obtain i where i: "i < length s" "c = s ! i" using assms(2) by (metis in_set_conv_nth)
  define p where "p = ''0000-00-00T00:00:00Z'' ! i"
  have "length s = length ''0000-00-00T00:00:00Z''" by (rule list_all2_lengthD [OF assms(1) [unfolded ts_shape_def], symmetric])
  with i have "p \<in> set ''0000-00-00T00:00:00Z''" unfolding p_def by (metis nth_mem)
  moreover have "if p = CHR ''0'' then is_digit c else c = p"
    using assms(1) i unfolding ts_shape_def p_def list_all2_conv_all_nth by auto
  ultimately show ?thesis by (auto split: if_splits)
qed

lemma ts_shape_bare:
  assumes "ts_shape s"
  shows "single_quote \<notin> set s" and "newline \<notin> set s" and "carriage_return \<notin> set s" and "s \<noteq> []"
proof -
  have absent: "c \<notin> set s" if "\<not> is_digit c" "c \<notin> set ''-T:Z''" for c
    using ts_shape_chars [OF assms] that by blast
  show "single_quote \<notin> set s" "newline \<notin> set s" "carriage_return \<notin> set s"
    by (rule absent; simp add: single_quote_def is_digit_def)+
  show "s \<noteq> []" using assms by (auto simp: ts_shape_def)
qed

text \<open>The line that the YAML library prints for a stamp, and the line of the Linter.\<close>

definition quoted_stamp :: "string \<Rightarrow> string \<Rightarrow> string" where
  "quoted_stamp key s = key @ '': '' @ [single_quote] @ s @ [single_quote]"

definition bare_stamp :: "string \<Rightarrow> string \<Rightarrow> string" where
  "bare_stamp key s = key @ '': '' @ s"

lemma unquote_key_quoted: "ts_shape s \<Longrightarrow> unquote_key key (quoted_stamp key s) = Some (bare_stamp key s)"
  by (simp add: unquote_key_def quoted_stamp_def bare_stamp_def Let_def startswith_def)

lemma unquote_key_Some: "unquote_key key l = Some l' \<Longrightarrow> \<exists>s. ts_shape s \<and> l = quoted_stamp key s \<and> l' = bare_stamp key s"
proof -
  assume "unquote_key key l = Some l'"
  then obtain rest where "l = key @ '': '' @ [single_quote] @ rest" "rest \<noteq> []" "last rest = single_quote"
    "ts_shape (butlast rest)" "l' = key @ '': '' @ butlast rest"
    by (auto simp: unquote_key_def Let_def startswith_iff split: if_splits)
  then show "\<exists>s. ts_shape s \<and> l = quoted_stamp key s \<and> l' = bare_stamp key s"
    using append_butlast_last_id [of rest]
    by (intro exI [of _ "butlast rest"]) (simp add: quoted_stamp_def bare_stamp_def)
qed

lemma unquote_key_bare: "ts_shape s \<Longrightarrow> unquote_key key (bare_stamp key' s) = None"
proof (rule ccontr)
  assume s: "ts_shape s" and "unquote_key key (bare_stamp key' s) \<noteq> None"
  then obtain t where "bare_stamp key' s = quoted_stamp key t" using unquote_key_Some by fastforce
  then have "last (bare_stamp key' s) = single_quote" by (simp add: quoted_stamp_def)
  then have "last s = single_quote" using ts_shape_bare(4) [OF s] by (simp add: bare_stamp_def)
  with ts_shape_bare(1,4) [OF s] show False by (metis last_in_set)
qed

lemma unquote_line_quoted:
  assumes "ts_shape s" and "key = ''created'' \<or> key = ''modified''"
  shows "unquote_line (quoted_stamp key s) = bare_stamp key s"
proof -
  have "unquote_key ''created'' (quoted_stamp ''modified'' s) = None"
    by (simp add: unquote_key_def quoted_stamp_def Let_def startswith_def)
  with assms unquote_key_quoted show ?thesis by (auto simp: unquote_line_def)
qed

text \<open>A line is changed only if it is such a line; and what it becomes is not changed again.\<close>

lemma unquote_line_cases:
  obtains "unquote_line l = l"
  | key s where "key = ''created'' \<or> key = ''modified''" "ts_shape s" "l = quoted_stamp key s" "unquote_line l = bare_stamp key s"
proof (cases "unquote_line l = l")
  case False
  then obtain key where "key = ''created'' \<or> key = ''modified''" "unquote_key key l = Some (unquote_line l)"
    by (auto simp: unquote_line_def split: option.splits)
  with unquote_key_Some that(2) show thesis by blast
qed (rule that(1))

lemma unquote_line_idem: "unquote_line (unquote_line l) = unquote_line l"
  by (cases l rule: unquote_line_cases) (simp_all add: unquote_line_def unquote_key_bare)

lemma unquote_line_chars: "set (unquote_line l) \<subseteq> set l"
  by (cases l rule: unquote_line_cases) (auto simp: quoted_stamp_def bare_stamp_def)

lemma split_unquote_stamps: "split_on newline (unquote_stamps t) = map unquote_line (split_on newline t)"
  unfolding unquote_stamps_def
  using split_on_no_sep unquote_line_chars by (intro split_on_join) fastforce+

lemma unquote_stamps_idem: "unquote_stamps (unquote_stamps t) = unquote_stamps t"
  by (simp add: unquote_stamps_def [of "unquote_stamps t"] split_unquote_stamps unquote_line_idem comp_def)
     (simp add: unquote_stamps_def)

section \<open>A note that was just stamped\<close>

text \<open>The document that a note's frontmatter holds, if it has any.\<close>

definition document :: "'d yaml \<Rightarrow> string option \<Rightarrow> exn + 'd" where
  "document y fm =
     (case (case fm of None \<Rightarrow> Inr None | Some f \<Rightarrow> y_load y f) of
        Inl err \<Rightarrow> Inl err
      | Inr None \<Rightarrow> Inr (y_empty y)
      | Inr (Some d) \<Rightarrow> Inr d)"

text \<open>
  \<open>stamp_survives y fm e\<close>: what the YAML library prints for the frontmatter \<open>fm\<close> with the stamp of the second \<open>e\<close>
  is a block of whole lines that it reads back, with bare stamps, as a document with that stamp.
\<close>

definition carries_stamp :: "'d yaml \<Rightarrow> string \<Rightarrow> int \<Rightarrow> bool" where
  "carries_stamp y f e \<longleftrightarrow> fm_block f \<and> carriage_return \<notin> set f \<and>
     (\<exists>d. y_load y f = Inr (Some d) \<and> y_get y d ''modified'' = Inr (True, format_ts e))"

definition stamp_survives :: "'d yaml \<Rightarrow> string option \<Rightarrow> int \<Rightarrow> bool" where
  "stamp_survives y fm e \<longleftrightarrow>
     (\<forall>d d' out. document y fm = Inr d \<longrightarrow> set_stamps y (format_ts e) d = Inr d' \<longrightarrow> y_dump y d' = Inr out \<longrightarrow>
        carries_stamp y (unquote_stamps out) e)"

lemma restamp_wrote:
  assumes "restamp env y p original body d s = (Inr True, s')" and "x_utcnow env (world s) = (e, w)"
  shows "\<exists>d' out. set_stamps y (format_ts e) d = Inr d' \<and> y_dump y d' = Inr out \<and>
    trace s' = trace s @ [EWrite p (FM_DELIM @ unquote_stamps out @ FM_DELIM @ body)]"
proof -
  obtain d' where d': "set_stamps y (format_ts e) d = Inr d'"
    using assms by (cases "set_stamps y (format_ts e) d") (auto simp: restamp_def now_utc_def seq_def sys_def ret_def)
  obtain out where out: "y_dump y d' = Inr out"
    using assms d' by (cases "y_dump y d'") (auto simp: restamp_def now_utc_def seq_def sys_def ret_def)
  from assms have "trace s' = trace s @ [EWrite p (FM_DELIM @ unquote_stamps out @ FM_DELIM @ body)]"
    by (auto simp: restamp_def now_utc_def seq_def sys_def ret_def Let_def d' out write_text_def andthen_def emit_def sys_try_def
        split: prod.splits sum.splits if_splits)
  with d' out show ?thesis by blast
qed

lemma stamp_wrote_document:
  assumes "stamp env y p s = (Inr True, s')" and "x_read env p (snd (x_is_file env p (world s))) = (Inr raw, w2)"
    and "split_frontmatter (universal_newlines raw) = (fm, body)" and "x_mtime env p w2 = (mt, w3)"
    and "x_utcnow env w3 = (e, w4)"
  shows "lower (suffix p) = ''.md'' \<and> (\<exists>d d' out. document y fm = Inr d \<and> set_stamps y (format_ts e) d = Inr d' \<and>
    y_dump y d' = Inr out \<and> trace s' = trace s @ [EWrite p (FM_DELIM @ unquote_stamps out @ FM_DELIM @ body)])"
proof -
  have body: "stamp_body env y p s = (Inr True, s')"
    using assms(1) by (auto simp: stamp_def attempt_eq andthen_eq_Inr emit_def)
  obtain w1 where w1: "x_is_file env p (world s) = (True, w1)" and md: "lower (suffix p) = ''.md''"
    using body by (auto simp: stamp_body_def seq_def sys_def split: prod.splits if_splits)
  then have rd: "x_read env p w1 = (Inr raw, w2)" using assms(2) by simp
  note head = stamp_body_def seq_def sys_def read_text_def sys_try_def ret_def Let_def
  define doc where "doc = (case fm of None \<Rightarrow> Inr None | Some f \<Rightarrow> y_load y f)"
  obtain loaded where l: "doc = Inr loaded"
    using body w1 md rd assms(3) by (cases doc) (auto simp: head doc_def)
  define d where "d = (case loaded of None \<Rightarrow> y_empty y | Some d \<Rightarrow> d)"
  have d: "document y fm = Inr d"
    using l by (auto simp: document_def d_def doc_def split: option.split)
  have "restamp env y p (universal_newlines raw) body d (s\<lparr>world := w3\<rparr>) = (Inr True, s')"
    using body w1 md rd assms(3,4) l
    by (auto simp: head d_def doc_def split: sum.splits if_splits)
  from restamp_wrote [OF this, of e w4] assms(5) d md show ?thesis by auto
qed

lemma split_frontmatter_no_cr:
  assumes "split_frontmatter (universal_newlines raw) = (fm, body)"
  shows "carriage_return \<notin> set body"
proof -
  have "set body \<subseteq> set (universal_newlines raw)"
  proof (cases fm)
    case None
    with assms split_frontmatter_None show ?thesis by fastforce
  next
    case (Some f)
    with assms split_frontmatter_parts [of "universal_newlines raw" f body] show ?thesis by auto
  qed
  with newlines_no_cr [of False raw] show ?thesis by (auto simp: universal_newlines_def)
qed

text \<open>A note that carries the stamp of a second in which, or before which, it was written.\<close>

lemma stamped_is_left_alone:
  assumes "lower (suffix p) = ''.md''" and "x_is_file env p (world s) = (True, v1)" and "x_read env p v1 = (Inr t, v2)"
    and "t = FM_DELIM @ f @ FM_DELIM @ body" and "carries_stamp y f e" and "carriage_return \<notin> set body"
    and "x_mtime env p v2 = (Inr (Fin m), v3)" and "trunc_rat m \<le> e" and "ts_valid e"
  shows "stamp env y p s = (Inr False, s\<lparr>world := v3\<rparr>)"
proof -
  obtain d where d: "fm_block f" "carriage_return \<notin> set f" "y_load y f = Inr (Some d)"
    "y_get y d ''modified'' = Inr (True, format_ts e)"
    using assms(5) by (auto simp: carries_stamp_def)
  have "modified_epoch y d = Inr (Some e)"
    using d(4) parse_format_ts [OF assms(9)] by (simp add: modified_epoch_def)
  moreover have "carriage_return \<notin> set t" using assms(4,6) d(2) by (auto simp: FM_DELIM_def)
  then have "universal_newlines t = FM_DELIM @ f @ FM_DELIM @ body" using assms(4) universal_newlines_id by simp
  ultimately show ?thesis
    using assms(1-3,7,8) d(3) split_join_frontmatter [OF d(1), of body]
    by (simp add: stamp_def attempt_def stamp_body_def seq_def sys_def read_text_def sys_try_def ret_def)
qed

section \<open>Properties\<close>

text \<open>
  C22: Stamps land in the form of the Linter. Of the text that the YAML library printed, the package changes nothing but
  whole lines that are one of its two keys with a quoted time stamp, and these lose exactly the quotes; doing it again changes
  nothing; and every stamp that the package itself sets, from the year 1000 to the year 9999, is such a line and ends up
  bare.
\<close>

theorem stamps_become_bare:
  "list_all2 (\<lambda>l l'. l' = l \<or> (\<exists>key s. (key = ''created'' \<or> key = ''modified'') \<and> ts_shape s \<and>
       l = quoted_stamp key s \<and> l' = bare_stamp key s))
     (split_on newline t) (split_on newline (unquote_stamps t)) \<and>
   unquote_stamps (unquote_stamps t) = unquote_stamps t \<and>
   (ts_valid e \<and> (key = ''created'' \<or> key = ''modified'') \<longrightarrow>
      unquote_line (quoted_stamp key (format_ts e)) = bare_stamp key (format_ts e) \<and>
      quoted_stamp key (format_ts e) \<notin> set (split_on newline (unquote_stamps t)))"
proof (intro conjI impI unquote_stamps_idem)
  show "list_all2 (\<lambda>l l'. l' = l \<or> (\<exists>key s. (key = ''created'' \<or> key = ''modified'') \<and> ts_shape s \<and>
       l = quoted_stamp key s \<and> l' = bare_stamp key s))
     (split_on newline t) (split_on newline (unquote_stamps t))"
    unfolding split_unquote_stamps list.rel_map
  proof (rule list.rel_refl)
    fix l
    show "unquote_line l = l \<or> (\<exists>key s. (key = ''created'' \<or> key = ''modified'') \<and> ts_shape s \<and>
       l = quoted_stamp key s \<and> unquote_line l = bare_stamp key s)"
      by (cases l rule: unquote_line_cases) blast+
  qed
  assume e: "ts_valid e \<and> (key = ''created'' \<or> key = ''modified'')"
  then have shape: "ts_shape (format_ts e)" using ts_shape_format by blast
  show bare: "unquote_line (quoted_stamp key (format_ts e)) = bare_stamp key (format_ts e)"
    by (rule unquote_line_quoted [OF shape]) (use e in blast)
  show "quoted_stamp key (format_ts e) \<notin> set (split_on newline (unquote_stamps t))"
  proof
    assume "quoted_stamp key (format_ts e) \<in> set (split_on newline (unquote_stamps t))"
    then have "unquote_line (quoted_stamp key (format_ts e)) = quoted_stamp key (format_ts e)"
      using unquote_line_idem by (auto simp: split_unquote_stamps)
    with bare show False by (simp add: quoted_stamp_def bare_stamp_def)
  qed
qed

text \<open>
  C19: Stamping settles. Let a note be stamped in the second \<open>e\<close>, and let its stamp survive in the YAML library. As
  long as the note is read back as it was written and its modification time is not in a later second, stamping it again
  returns \<^verbatim>\<open>False\<close> and does nothing: it writes nothing and logs nothing. So a watcher that reports the write of the
  stamp itself starts no endless exchange.
\<close>

theorem stamp_settles:
  assumes "x_read env p (snd (x_is_file env p (world s))) = (Inr raw, w2)"
    and "split_frontmatter (universal_newlines raw) = (fm, body)" and "x_mtime env p w2 = (mt, w3)"
    and "x_utcnow env w3 = (e, w4)" and "ts_valid e" and "stamp_survives y fm e"
    and "stamp env y p s = (Inr True, s1)"
    and "x_is_file env p (world s1) = (True, v1)" and "x_read env p v1 = (Inr t, v2)" and "new_effects s s1 = [EWrite p t]"
    and "x_mtime env p v2 = (Inr (Fin m), v3)" and "trunc_rat m \<le> e"
  shows "stamp env y p s1 = (Inr False, s1\<lparr>world := v3\<rparr>)"
proof -
  obtain d d' out where d: "document y fm = Inr d" "set_stamps y (format_ts e) d = Inr d'" "y_dump y d' = Inr out"
    and tr: "trace s1 = trace s @ [EWrite p (FM_DELIM @ unquote_stamps out @ FM_DELIM @ body)]"
    and md: "lower (suffix p) = ''.md''"
    using stamp_wrote_document [OF assms(7,1-4)] by blast
  have "t = FM_DELIM @ unquote_stamps out @ FM_DELIM @ body" using tr assms(10) by (simp add: new_effects_def)
  moreover have "carries_stamp y (unquote_stamps out) e" using assms(6) d unfolding stamp_survives_def by blast
  ultimately show ?thesis
    by (rule stamped_is_left_alone [OF md assms(8,9) _ _ split_frontmatter_no_cr [OF assms(2)] assms(11,12,5)])
qed

section \<open>Examples\<close>

definition plain_world :: script where
  "plain_world = script0\<lparr>sc_files := [(example_note, ''hi'', Fin 0)], sc_utc := 100, sc_time := Fin (201 / 2)\<rparr>"

definition plain_state :: "script io" where
  "plain_state = \<lparr>world = plain_world, trace = []\<rparr>"

definition plain_fm :: string where
  "plain_fm = ''created: 1970-01-01T00:01:40Z'' @ [newline] @ ''modified: 1970-01-01T00:01:40Z'' @ [newline]"

definition plain_stamped :: string where
  "plain_stamped = FM_DELIM @ plain_fm @ FM_DELIM @ ''hi''"

lemma valid_100: "ts_valid 100"
  by (simp add: ts_valid_def epoch_ordinal_def ord2ymd_def)

lemma plain_facts: "split_frontmatter (universal_newlines ''hi'') = (None, ''hi'')" "plain_stamped \<noteq> universal_newlines ''hi''"
  "modified_epoch line_yaml [] = Inr None" "int_of_float (Fin 0) = Inr 0" "trunc_rat (201 / 2) = 100"
  "set_stamps line_yaml ''1970-01-01T00:01:40Z'' [] =
     Inr [(''created'', ''1970-01-01T00:01:40Z''), (''modified'', ''1970-01-01T00:01:40Z'')]"
  by code_simp+

lemma plain_carries: "carries_stamp line_yaml plain_fm 100"
proof -
  have "y_load line_yaml plain_fm =
      Inr (Some [(''created'', ''1970-01-01T00:01:40Z''), (''modified'', ''1970-01-01T00:01:40Z'')])"
    "fm_block plain_fm" "carriage_return \<notin> set plain_fm"
    by code_simp+
  then show ?thesis by (simp add: carries_stamp_def example_stamp_100 line_yaml_def)
qed

lemma plain_survives: "stamp_survives line_yaml None 100"
proof -
  have "document line_yaml None = Inr []" by (simp add: document_def line_yaml_def)
  then show ?thesis
    using plain_carries example_dump example_unquoted
    by (simp add: stamp_survives_def example_stamp_100 plain_facts plain_fm_def)
qed

lemma plain_stamp:
  "stamp script_env line_yaml example_note plain_state =
     (Inr True, \<lparr>world = plain_world\<lparr>sc_files := (example_note, plain_stamped, Fin (201 / 2)) # sc_files plain_world\<rparr>,
        trace = [EWrite example_note plain_stamped]\<rparr>)"
proof -
  have "FM_DELIM @ unquote_stamps out @ FM_DELIM @ ''hi'' = plain_stamped"
    if "y_dump line_yaml [(''created'', ''1970-01-01T00:01:40Z''), (''modified'', ''1970-01-01T00:01:40Z'')] = Inr out" for out
    using that example_dump example_unquoted by (simp add: plain_stamped_def plain_fm_def)
  moreover have "y_empty line_yaml = []" by (simp add: line_yaml_def)
  ultimately show ?thesis
    using example_dump
    by (simp add: stamp_def stamp_body_def restamp_def now_utc_def read_text_def write_text_def attempt_def seq_def
        andthen_def sys_def sys_try_def emit_def ret_def Let_def plain_facts example_facts(1) example_stamp_100
        plain_state_def plain_world_def script_env_def)
qed

theorem stamps_become_bare_witness:
  "unquote_line (quoted_stamp ''modified'' (format_ts 100)) = ''modified: 1970-01-01T00:01:40Z''"
  using stamps_become_bare [of "[]" 100 "''modified''"] valid_100
  by (simp add: bare_stamp_def example_stamp_100)

theorem stamp_settles_witness:
  "\<exists>s1. stamp script_env line_yaml example_note plain_state = (Inr True, s1) \<and>
     stamp script_env line_yaml example_note s1 = (Inr False, s1)"
proof -
  define w1 where "w1 = plain_world\<lparr>sc_files := (example_note, plain_stamped, Fin (201 / 2)) # sc_files plain_world\<rparr>"
  define s1 where "s1 = \<lparr>world = w1, trace = [EWrite example_note plain_stamped]\<rparr>"
  have first: "stamp script_env line_yaml example_note plain_state = (Inr True, s1)"
    unfolding s1_def w1_def by (rule plain_stamp)
  have before: "x_read script_env example_note (snd (x_is_file script_env example_note (world plain_state))) = (Inr ''hi'', plain_world)"
    "x_mtime script_env example_note plain_world = (Inr (Fin 0), plain_world)"
    "x_utcnow script_env plain_world = (100, plain_world)"
    by (simp_all add: script_env_def plain_state_def plain_world_def)
  have after: "x_is_file script_env example_note (world s1) = (True, w1)"
    "x_read script_env example_note w1 = (Inr plain_stamped, w1)"
    "new_effects plain_state s1 = [EWrite example_note plain_stamped]"
    "x_mtime script_env example_note w1 = (Inr (Fin (201 / 2)), w1)"
    by (simp_all add: script_env_def s1_def w1_def new_effects_def plain_state_def)
  have "trunc_rat (201 / 2) \<le> 100" by (simp add: plain_facts)
  from stamp_settles [OF before(1) plain_facts(1) before(2,3) valid_100 plain_survives first after this]
  have "stamp script_env line_yaml example_note s1 = (Inr False, s1)" by (simp add: s1_def)
  with first show ?thesis by blast
qed

end
