(* ===== verification/Spec2Isabelle.thy ===== *)
theory Spec2Isabelle
  imports BackupExamples Restamping
begin

text \<open>
  A verification development for the Python package \<^verbatim>\<open>obsidian_git_sync\<close> (the files under
  \<^verbatim>\<open>src/src/obsidian_git_sync\<close>), the extension of an MCP server for Obsidian vaults that commits every change
  of the vault with git and pushes it.

  \<^bold>\<open>The program.\<close> \<^verbatim>\<open>main.py\<close> builds the extension object, validates the configuration (\<^verbatim>\<open>config.py\<close>), loads the
  extensions that the operator declares beside it (\<^verbatim>\<open>extension_hosting.py\<close>) and hands the list to the server. The
  extension (\<^verbatim>\<open>extension.py\<close>) attaches two listeners before the server's index watches the vault, and afterwards
  sweeps stale lock files (\<^verbatim>\<open>locks.py\<close>), starts the worker's thread and the thread of the sweep timer. Listeners and
  timer put classified events into one queue (\<^verbatim>\<open>events.py\<close>); the worker (\<^verbatim>\<open>worker.py\<close>) takes them out, stamps
  the notes that were written (\<^verbatim>\<open>stamping.py\<close>), stages and commits (\<^verbatim>\<open>git_ops.py\<close>), and, when the queue has been
  quiet or the last push is too long ago, fetches, rebases and pushes, and reports a push to a monitor
  (\<^verbatim>\<open>heartbeat.py\<close>). git gets its password from \<^verbatim>\<open>credential_helper.py\<close>, a program of its own.

  \<^bold>\<open>How it is modelled.\<close> A statement of the program is a function from a state to a result and a new state; the result
  is a value or an exception (\<open>prog\<close> in \<^verbatim>\<open>Prelude\<close>), so every \<^verbatim>\<open>raise\<close>, every \<^verbatim>\<open>except\<close> and every early return is
  a branch of a definition. States are records that extend each other as the objects own each other:
  \<open>io\<close> (the world, and the trace of what the package has done), \<open>git_st\<close> (the cached git directory),
  \<open>worker_st\<close> (the attributes of \<^verbatim>\<open>GitWorker\<close>), \<open>ext_st\<close> (the attributes of \<^verbatim>\<open>GitSyncExtension\<close>). The operating
  system is the parameter \<open>env\<close>: one function for each kind of call, over a world of any type, so that nothing is
  assumed of git, of the file system, of the clocks, of the network, or of what others do in between. The YAML library
  is the parameter \<open>yaml\<close>, the import system with the operator's extensions is the parameter \<open>host\<close>. What they
  are assumed to do, where a theorem needs it, is a named hypothesis of that theorem: \<open>git_answers\<close> (git processes
  end), \<open>movers_end\<close> (at least commits, rebases and aborts end; the others may be killed by the timeout), \<open>syncs_end\<close>
  (fetches end too), \<open>aborts_work\<close> (an abort succeeds where a rebase stopped; the worker does not look at its result),
  \<open>always_exits\<close> (with this exit code), \<open>unlink_fails_softly\<close>, \<open>host_answers\<close>, \<open>stamp_survives\<close> (the YAML
  library reads back a stamp it printed), and, for what becomes of the notes, \<open>git_laws\<close>: what git documents about
  each command that the worker runs, stated about a view of the world as a repository (\<open>repo\<close>: the files, the index,
  the checked out revision and branch, what the remote has). The laws leave open what a commit or a rebase has done when
  it is killed, and what an abort has done that fails in the middle of a rebase; they say that the worker is the only one
  that runs git in the vault, that no hook changes the index during a commit, and that nobody removes published history;
  what others do to the files, and what they push, is left open. \<open>BackupExamples\<close> has a machine that keeps them.

  \<^bold>\<open>The theories.\<close>

  \<^item> \<^verbatim>\<open>Prelude\<close>: exceptions, programs, triples, frames, the contracts \<open>fail_soft\<close>, \<open>fail_soft_inv\<close>, \<open>codec\<close>, and step
    relations with \<open>step_invariant\<close> and \<open>simulation\<close>.
  \<^item> \<^verbatim>\<open>PyText\<close>, \<^verbatim>\<open>PyNum\<close>, \<^verbatim>\<open>PyFloat\<close>, \<^verbatim>\<open>PyPath\<close>, \<^verbatim>\<open>PyTime\<close>, \<^verbatim>\<open>PyUrl\<close>: what the package uses of Python: strings,
    \<^verbatim>\<open>int\<close> and \<^verbatim>\<open>float\<close> of a text with double rounding, paths, time stamps and the calendar, \<^verbatim>\<open>urlsplit\<close>.
  \<^item> \<^verbatim>\<open>SysIO\<close>: effects, log messages, the environment, and \<open>grows\<close>, the calculus of what a program may add to the
    trace. \<^verbatim>\<open>Scripted\<close>: one concrete environment, for examples only.
  \<^item> \<^verbatim>\<open>Events\<close>, \<^verbatim>\<open>GitOps\<close>, \<^verbatim>\<open>Locks\<close>, \<^verbatim>\<open>Config\<close>, \<^verbatim>\<open>Credential\<close>, \<^verbatim>\<open>Heartbeat\<close>, \<^verbatim>\<open>Stamping\<close>, \<^verbatim>\<open>Worker\<close>,
    \<^verbatim>\<open>Extension\<close>, \<^verbatim>\<open>Hosting\<close>: one source file each (\<^verbatim>\<open>Hosting\<close> also \<^verbatim>\<open>main.py\<close>), with its definitions under the
    names of the source. \<^verbatim>\<open>Restamping\<close>: the form of the stamps, and a note that is stamped twice.
  \<^item> \<^verbatim>\<open>WorkerCycle\<close> (one event is one cycle of commands), \<^verbatim>\<open>WorkerPush\<close> (the push protocol), \<^verbatim>\<open>WorkerRun\<close> (the loop
    over any history of the queue), \<^verbatim>\<open>WorkerHealth\<close> (what the log says, and an interrupted rebase), with
    \<^verbatim>\<open>WorkerExamples\<close>.
  \<^item> \<^verbatim>\<open>SystemModel\<close>: the whole system as a step relation \<open>sys_step\<close> (start, listeners, timer, worker, shutdown), and its
    refinement of the abstract \<open>ledger\<close>; \<^verbatim>\<open>SystemInv\<close>: the invariant of the running system, launch and start;
    \<^verbatim>\<open>SystemRuns\<close>: what runs achieve and where they stay; \<^verbatim>\<open>SystemExamples\<close>: these theorems at work.
  \<^item> \<^verbatim>\<open>Worlds\<close>: \<open>moves\<close>, the calculus of what a program may do to the world, along an order on worlds
    (\<open>world_order\<close>); \<^verbatim>\<open>GitRepo\<close>: the repository and the laws of git; \<^verbatim>\<open>Backup\<close>: what a cycle and a push do to it;
    \<^verbatim>\<open>SystemBackup\<close>: the invariant of the whole system, and what an earlier process left; \<^verbatim>\<open>BackupExamples\<close>: a machine with a
    repository, and these theorems on it.

  \<^bold>\<open>What is shown.\<close> For the worker: it survives every history; one event is one cycle of the right shape, and the marks
  it leaves say what happened; the push follows its protocol; no commit is forgotten, a push that works delivers, one
  streak of failures is one warning, a healthy sweep is silent. For the system: the same bookkeeping in every
  interleaving, events in order and well formed, a shutdown that ends and delivers, a disabled extension that is
  inert, a start that cannot fail after the validation, a queue that can always be worked off. For the notes: a
  healthy cycle has committed what was there (a sweep every file, a write its files, with the text that stamping gave
  them), a clear mark means that everything committed is on the remote, and a quiet window, a shutdown or a worker
  that is let run brings it there as soon as a push works. For the components:
  validation fails closed and names \<^verbatim>\<open>ValueError\<close>s, the sweep removes only stale locks and reports all of them, stamping
  is contained, gated and settles, its stamps end up bare, time stamps and frontmatter survive a round trip, the heartbeat follows no redirect and
  logs no URL, the token stays out of everything, the declared extensions are loaded in order or not at all.
  Four theorems show the program in trouble: an infinite debounce ends the worker, a rebase that
  times out is not aborted, a commit that is made but killed before it reports is forgotten, and commits that an
  earlier process left unpushed wait for the next event. The second and the third are why \<open>movers_end\<close> is
  needed where the mark of unpushed commits is shown to be true, and the fourth is why everything has to be on the
  remote at the launch. The entry point is shown with all its three ends: served, refused with a logged message, and left
  by an exception that it does not catch.

  \<^bold>\<open>Steps and threads.\<close> The threads are interleaved at the operations of the queue, the stop flags and the rounds of
  the worker. A round is one step: the other threads only append to the queue and set flags, which a round looks at
  again only at its end. A wait on the queue is the sequence of looks at the clock that it makes (\<open>wait_get\<close>): the first
  one within a second of its beginning, and later ones never earlier, so a wait that the locks of the interpreter
  refuse is refused at its first look, and one within their range ends when its time is up. Two things are therefore outside: the flush of \<^verbatim>\<open>stop\<close> overlapping a round that
  takes longer than the time limit of the join, and the server's own threads.

  \<^bold>\<open>Bounds.\<close> A redirect chain is cut after ten hops, as in the library. Texts are latin-1 (Isabelle characters), and
  the digits of an \<^verbatim>\<open>int\<close> are bounded as in the interpreter. A wait on a lock is bounded by the
  interpreter's largest timeout (\<open>lock_timeout_max\<close>). Everything else is total without fuel: the loops of the
  package run over lists, and \<^verbatim>\<open>drain\<close> comes with its termination proof.

  \<^bold>\<open>Not modelled.\<close> All functions and classes of the package are modelled; what the map leaves out of the files are
  imports, module texts, comments and the loggers. Outside are: the server \<^verbatim>\<open>obsidian_vault_mcp\<close>,
  \<^verbatim>\<open>ruamel.yaml\<close>, git and the monitor (parameters); interrupts of the interpreter; the text of log
  lines, where only the values they carry are kept; characters beyond latin-1;
  \<^verbatim>\<open>__init__.py\<close>, which re-exports one class; the container files, the \<^verbatim>\<open>obsidian-sync\<close> sidecar (shell), the
  change proposals and the tests, which are no part of the package.
\<close>

end
